theory Spec2Isabelle
  imports Complex_Main "HOL-Library.Multiset"
begin

section \<open>Dyson ring renderer: data model\<close>

text \<open>
  Shallow embedding of \<^verbatim>\<open>main.py\<close>. Python floats and numpy float arrays are modelled
  by real numbers and lists of reals (no rounding, no NaN); Python integers by \<open>int\<close>;
  every exception the code can raise is a value of \<open>py_error\<close>. The random numbers the
  code draws are parameters of the functions that draw them.
\<close>

datatype py_error = IndexError | ValueError | ZeroDivisionError

type_synonym vec3 = "real \<times> real \<times> real"

text \<open>A 3x3 array, given by its three rows.\<close>

type_synonym mat3 = "vec3 \<times> vec3 \<times> vec3"

text \<open>A face as the code keeps it: the vertex indices and the edge-draw flags.\<close>

type_synonym face = "int list \<times> bool list"

type_synonym color = "int \<times> int \<times> int"

text \<open>A light: sample point, size, colour. A projected light: screen x, screen y, size, colour.\<close>

type_synonym light = "vec3 \<times> real \<times> color"
type_synonym proj_light = "real \<times> real \<times> real \<times> color"

text \<open>An entry of \<^verbatim>\<open>segments\<close>: vertices, edges, faces, per-face lights.\<close>

type_synonym segment = "vec3 list \<times> (int \<times> int) list \<times> face list \<times> light list list"

text \<open>The 7-tuple appended to \<^verbatim>\<open>render_list\<close>.\<close>

record render_item =
  item_depth :: real
  item_type :: string
  item_points :: "(real \<times> real) list"
  item_edge_color :: color
  item_edge_flags :: "bool list"
  item_lights :: "proj_light list"
  item_is_back :: bool

text \<open>
  \<^verbatim>\<open>xs[i]\<close> on a Python list or on the rows of a numpy array: indices from \<open>-len\<close> to
  \<open>len - 1\<close> are accepted, the negative ones counting from the end; any other raises.
\<close>

definition getitem :: "'a list \<Rightarrow> int \<Rightarrow> py_error + 'a" where
  "getitem xs i =
     (if 0 \<le> i \<and> i < int (length xs) then Inr (xs ! nat i)
      else if i < 0 \<and> - int (length xs) \<le> i then Inr (xs ! nat (int (length xs) + i))
      else Inl IndexError)"

text \<open>Sequencing of computations that may raise.\<close>

definition bind_res :: "py_error + 'a \<Rightarrow> ('a \<Rightarrow> py_error + 'b) \<Rightarrow> py_error + 'b" where
  "bind_res m f = (case m of Inl e \<Rightarrow> Inl e | Inr x \<Rightarrow> f x)"

text \<open>A comprehension \<^verbatim>\<open>[f(x) for x in xs]\<close> whose body may raise: the first failure wins.\<close>

fun map_res :: "('a \<Rightarrow> py_error + 'b) \<Rightarrow> 'a list \<Rightarrow> py_error + 'b list" where
  "map_res f [] = Inr []"
| "map_res f (x # xs) = bind_res (f x) (\<lambda>y. bind_res (map_res f xs) (\<lambda>ys. Inr (y # ys)))"

text \<open>\<^verbatim>\<open>all(f(x) for x in xs)\<close>: stops at the first false value, raises where \<open>f\<close> does.\<close>

fun all_res :: "('a \<Rightarrow> py_error + bool) \<Rightarrow> 'a list \<Rightarrow> py_error + bool" where
  "all_res f [] = Inr True"
| "all_res f (x # xs) = bind_res (f x) (\<lambda>b. if b then all_res f xs else Inr False)"

section \<open>Configuration constants\<close>

text \<open>\<^verbatim>\<open>math.radians(x)\<close> is \<open>x * (pi / 180)\<close>.\<close>

definition WIDTH :: real where "WIDTH = 1200"
definition HEIGHT :: real where "HEIGHT = 900"
definition SCALE :: real where "SCALE = 52.5"
definition DOUBLE_FACE_Z_OFFSET :: real where "DOUBLE_FACE_Z_OFFSET = 1 / 10000"
definition FACE_EDGE_FRONT :: color where "FACE_EDGE_FRONT = (0, 255, 0)"
definition FACE_EDGE_BACK :: color where "FACE_EDGE_BACK = (0, 200, 255)"
definition N_SEGMENTS :: nat where "N_SEGMENTS = 12"
definition ARC_SPAN :: real where "ARC_SPAN = 360 * (pi / 180)"
definition ARC_START :: real where "ARC_START = - 85 * (pi / 180)"
definition R_INNER :: real where "R_INNER = 4.5"
definition R_OUTER :: real where "R_OUTER = 7.5"
definition SEG_HEIGHT :: real where "SEG_HEIGHT = 2.5"
definition ANGLE_SPAN :: real where "ANGLE_SPAN = (ARC_SPAN / real N_SEGMENTS) * 0.90"
definition SUBDIVISIONS :: int where "SUBDIVISIONS = 6"
definition BEVEL_SIZE :: real where "BEVEL_SIZE = 0.15"
definition LIGHTS_PER_SEGMENT :: nat where "LIGHTS_PER_SEGMENT = 200"

section \<open>Vectors and 3x3 matrices\<close>

text \<open>Scalar times row and row plus row, as numpy computes them on rows of the vertex array.\<close>

definition smul :: "real \<Rightarrow> vec3 \<Rightarrow> vec3" where
  "smul k p = (case p of (x, y, z) \<Rightarrow> (k * x, k * y, k * z))"

definition vadd :: "vec3 \<Rightarrow> vec3 \<Rightarrow> vec3" where
  "vadd p q = (case p of (x, y, z) \<Rightarrow> case q of (x', y', z') \<Rightarrow> (x + x', y + y', z + z'))"

text \<open>\<^verbatim>\<open>m.T\<close>\<close>

definition mat_T :: "mat3 \<Rightarrow> mat3" where
  "mat_T m = (case m of ((a, b, c), (d, e, f), (g, h, i)) \<Rightarrow> ((a, d, g), (b, e, h), (c, f, i)))"

text \<open>A row vector times a 3x3 array.\<close>

definition vec_mat :: "vec3 \<Rightarrow> mat3 \<Rightarrow> vec3" where
  "vec_mat p m =
     (case p of (x, y, z) \<Rightarrow> case m of ((a, b, c), (d, e, f), (g, h, i)) \<Rightarrow>
        (x * a + y * d + z * g, x * b + y * e + z * h, x * c + y * f + z * i))"

text \<open>\<^verbatim>\<open>a @ b\<close> on two 3x3 arrays.\<close>

definition matmul3 :: "mat3 \<Rightarrow> mat3 \<Rightarrow> mat3" where
  "matmul3 a b = (case a of (r0, r1, r2) \<Rightarrow> (vec_mat r0 b, vec_mat r1 b, vec_mat r2 b))"

text \<open>
  \<^verbatim>\<open>pts @ m\<close> on an array of points. An array built from an empty list of rows has
  shape (0,), and numpy refuses its product with a 3x3 array.
\<close>

definition array_matmul :: "vec3 list \<Rightarrow> mat3 \<Rightarrow> py_error + vec3 list" where
  "array_matmul pts m = (if pts = [] then Inl ValueError else Inr (map (\<lambda>p. vec_mat p m) pts))"

definition rotation_matrix_z :: "real \<Rightarrow> mat3" where
  "rotation_matrix_z theta =
     (let c = cos theta; s = sin theta in ((c, - s, 0), (s, c, 0), (0, 0, 1)))"

definition rotation_matrix_x :: "real \<Rightarrow> mat3" where
  "rotation_matrix_x theta =
     (let c = cos theta; s = sin theta in ((1, 0, 0), (0, c, - s), (0, s, c)))"

definition rotation_matrix_y :: "real \<Rightarrow> mat3" where
  "rotation_matrix_y theta =
     (let c = cos theta; s = sin theta in ((c, 0, s), (0, 1, 0), (- s, 0, c)))"

text \<open>
  The matrix of a frame, as \<^verbatim>\<open>main\<close> composes it (\<^verbatim>\<open>@\<close> associates to the left):
  \<^verbatim>\<open>mat = rotation_matrix_y(view_yaw) @ rotation_matrix_x(view_pitch) @ rotation_matrix_z(theta)\<close>
\<close>

definition frame_mat :: "real \<Rightarrow> real \<Rightarrow> real \<Rightarrow> mat3" where
  "frame_mat view_yaw view_pitch theta =
     matmul3 (matmul3 (rotation_matrix_y view_yaw) (rotation_matrix_x view_pitch))
       (rotation_matrix_z theta)"

text \<open>The notions the specification measures a rotation by: the identity and the determinant.\<close>

definition identity3 :: mat3 where
  "identity3 = ((1, 0, 0), (0, 1, 0), (0, 0, 1))"

definition det3 :: "mat3 \<Rightarrow> real" where
  "det3 m =
     (case m of ((a, b, c), (d, e, f), (g, h, i)) \<Rightarrow>
        a * (e * i - f * h) - b * (d * i - f * g) + c * (d * h - e * g))"

section \<open>Projection\<close>

text \<open>
  Returns screen x, screen y, the visibility mask and an array of ones; four empty arrays
  for no points.
\<close>

definition project_points :: "vec3 list \<Rightarrow> real list \<times> real list \<times> bool list \<times> real list" where
  "project_points pts =
     (if length pts = 0 then ([], [], [], [])
      else let scaled = map (\<lambda>p. smul SCALE p) pts
           in (map (\<lambda>p. WIDTH * 0.5 + fst p) scaled,
               map (\<lambda>p. HEIGHT * 0.5 - fst (snd p)) scaled,
               map (\<lambda>p. True) scaled,
               map (\<lambda>p. 1) scaled))"

section \<open>Geometry builder\<close>

text \<open>
  \<^verbatim>\<open>np.linspace(start, stop, num)\<close> over the reals: \<open>num\<close> evenly spaced samples, the last
  one set to \<open>stop\<close>; a negative \<open>num\<close> raises.
\<close>

definition linspace :: "real \<Rightarrow> real \<Rightarrow> int \<Rightarrow> py_error + real list" where
  "linspace start stop num =
     (if num < 0 then Inl ValueError
      else let n = nat num; dv = num - 1; delta = stop - start
           in Inr (map (\<lambda>i. if 1 < num \<and> int i = num - 1 then stop
                              else if 0 < dv then start + real i * (delta / real_of_int dv)
                              else start + real i * delta) [0..<n]))"

definition points_per_ring :: nat where
  "points_per_ring = 4"

text \<open>
  The loop \<^verbatim>\<open>for i, theta in enumerate(theta_steps)\<close>, over the pairs still to visit,
  with the two lists it appends to.
\<close>

fun segment_loop ::
  "real list \<Rightarrow> real list \<Rightarrow> nat \<Rightarrow> (nat \<times> real) list \<Rightarrow> vec3 list \<times> face list
     \<Rightarrow> vec3 list \<times> face list" where
  "segment_loop rs zs n_rings [] acc = acc"
| "segment_loop rs zs n_rings ((i, theta) # rest) acc =
     (let verts = fst acc; faces_with_flags = snd acc;
          c = cos theta; s = sin theta;
          verts' = verts @ map (\<lambda>j. (rs ! j * c, rs ! j * s, zs ! j)) [0..<points_per_ring];
          faces' =
            (if i > 0 then
               let base = int i * int points_per_ring;
                   prev_base = (int i - 1) * int points_per_ring
               in faces_with_flags @
                  map (\<lambda>j. let next_j = (j + 1) mod points_per_ring;
                                draw_flags = [True, int i = int n_rings - 1, True, i = 1]
                            in ([prev_base + int j, base + int j, base + int next_j,
                                 prev_base + int next_j], draw_flags))
                    [0..<points_per_ring]
             else faces_with_flags)
      in segment_loop rs zs n_rings rest (verts', faces'))"

definition make_curved_beveled_segment ::
  "real \<Rightarrow> real \<Rightarrow> real \<Rightarrow> real \<Rightarrow> real \<Rightarrow> int \<Rightarrow> real
     \<Rightarrow> py_error + (vec3 list \<times> (int \<times> int) list \<times> face list)" where
  "make_curved_beveled_segment angle_center angle_span r_inner r_outer height subdivs bevel =
     (let half_span = angle_span * 0.5;
          rs = [r_inner, r_outer, r_outer, r_inner];
          zs = [- height / 2, - height / 2, height / 2, height / 2]
      in bind_res (linspace (angle_center - half_span) (angle_center + half_span) (subdivs + 1))
           (\<lambda>theta_steps.
              let n_rings = length theta_steps;
                  (verts, faces_with_flags) =
                     segment_loop rs zs n_rings (enumerate 0 theta_steps) ([], []);
                  faces1 = faces_with_flags @ [([0, 1, 2, 3], replicate 4 True)];
                  last_base = (int n_rings - 1) * int points_per_ring;
                  faces2 = faces1 @ [([last_base + 3, last_base + 2, last_base + 1, last_base],
                                      replicate 4 True)]
              in Inr (verts, [], faces2)))"

section \<open>Light scatterer\<close>

text \<open>
  \<open>u\<close> and \<open>v\<close> are the two numbers \<^verbatim>\<open>np.random.rand(2)\<close> returns, each in [0, 1).
  Unpacking into \<^verbatim>\<open>a, b, c, d\<close> raises unless there are four values.
\<close>

definition sample_point_on_quad :: "vec3 list \<Rightarrow> int list \<Rightarrow> real \<Rightarrow> real \<Rightarrow> py_error + vec3" where
  "sample_point_on_quad verts face u v =
     (if length face \<noteq> 4 then bind_res (getitem face 0) (\<lambda>idx. getitem verts idx)
      else bind_res (map_res (\<lambda>idx. getitem verts idx) face)
             (\<lambda>vs. case vs of
                      [a, b, c, d] \<Rightarrow>
                        Inr (vadd (vadd (vadd (smul ((1 - u) * (1 - v)) a) (smul (u * (1 - v)) b))
                                        (smul (u * v) c))
                                  (smul ((1 - u) * v) d))
                    | _ \<Rightarrow> Inl ValueError))"

text \<open>
  The numbers drawn for one light after its face is chosen: \<open>u\<close>, \<open>v\<close>, the size and the
  colour. \<open>draws k\<close> is what the \<open>k\<close>-th pass of the loop draws; \<open>count_n\<close> is the
  argument \<^verbatim>\<open>count\<close>.
\<close>

type_synonym point_draw = "real \<times> real \<times> real \<times> color"

definition generate_lights_for_face ::
  "vec3 list \<Rightarrow> int list \<Rightarrow> nat \<Rightarrow> (nat \<Rightarrow> point_draw) \<Rightarrow> py_error + light list" where
  "generate_lights_for_face verts face_indices count_n draws =
     map_res (\<lambda>k. case draws k of (u, v, sz, col) \<Rightarrow>
                bind_res (sample_point_on_quad verts face_indices u v) (\<lambda>pt. Inr (pt, sz, col)))
       [0..<count_n]"

section \<open>Building the segments at startup\<close>

text \<open>
  The loop \<^verbatim>\<open>for _ in range(LIGHTS_PER_SEGMENT)\<close> of \<^verbatim>\<open>main\<close>, over the passes still to
  run. \<open>rnd k\<close> is what pass \<open>k\<close> draws: first the value \<^verbatim>\<open>random.randrange(len(f))\<close>
  returns, then the numbers of the light.
  \<^verbatim>\<open>face_lights[f_idx].extend(generate_lights_for_face(v, f[f_idx][0], 1))\<close>
\<close>

fun lights_loop ::
  "vec3 list \<Rightarrow> face list \<Rightarrow> (nat \<Rightarrow> nat \<times> point_draw) \<Rightarrow> nat list \<Rightarrow> light list list
     \<Rightarrow> py_error + light list list" where
  "lights_loop v f rnd [] face_lights = Inr face_lights"
| "lights_loop v f rnd (k # ks) face_lights =
     (let f_idx = int (fst (rnd k))
      in bind_res (getitem face_lights f_idx) (\<lambda>cur.
         bind_res (getitem f f_idx) (\<lambda>fc.
         bind_res (generate_lights_for_face v (fst fc) 1 (\<lambda>_. snd (rnd k))) (\<lambda>new.
           lights_loop v f rnd ks (face_lights[nat f_idx := cur @ new])))))"

text \<open>
  The list \<^verbatim>\<open>segments\<close> that \<^verbatim>\<open>main\<close> builds before the frame loop; \<open>rnd i\<close> holds the
  draws made while segment \<open>i\<close> is built.
\<close>

definition main_segments :: "(nat \<Rightarrow> nat \<Rightarrow> nat \<times> point_draw) \<Rightarrow> py_error + segment list" where
  "main_segments rnd =
     map_res (\<lambda>i.
        let step = ARC_SPAN / real N_SEGMENTS
        in bind_res (make_curved_beveled_segment (ARC_START + step * (real i + 0.5)) ANGLE_SPAN
                       R_INNER R_OUTER SEG_HEIGHT SUBDIVISIONS BEVEL_SIZE)
             (\<lambda>(v, e, f).
                let face_lights = replicate (length f) []
                in bind_res (if length f > 0 \<and> LIGHTS_PER_SEGMENT > 0
                             then lights_loop v f (rnd i) [0..<LIGHTS_PER_SEGMENT] face_lights
                             else Inr face_lights)
                     (\<lambda>face_lights'. Inr (v, e, f, face_lights'))))
       [0..<N_SEGMENTS]"

section \<open>Edge flags of a reversed polygon\<close>

text \<open>
  \<^verbatim>\<open>if len(edge_flags) <= 1: return list(edge_flags)\<close>
  \<^verbatim>\<open>return list(reversed(edge_flags[:-1])) + [edge_flags[-1]]\<close>
\<close>

definition reverse_edge_flags :: "bool list \<Rightarrow> bool list" where
  "reverse_edge_flags edge_flags =
     (if length edge_flags \<le> 1 then edge_flags
      else rev (butlast edge_flags) @ [last edge_flags])"

section \<open>Depth-sorted compositor\<close>

text \<open>
  The lights of one face, rotated and projected:
  \<^verbatim>\<open>pts_world = np.array([l[0] for l in lights_local[i]]) @ mat.T\<close>
  \<^verbatim>\<open>lx, ly, _, _ = project_points(pts_world)\<close>
  \<^verbatim>\<open>for j in range(len(lx)): proj_lights.append((lx[j], ly[j], lights_local[i][j][1], lights_local[i][j][2]))\<close>
\<close>

definition project_lights :: "mat3 \<Rightarrow> light list \<Rightarrow> py_error + proj_light list" where
  "project_lights mat ls =
     (if ls \<noteq> [] then
        bind_res (array_matmul (map fst ls) (mat_T mat))
          (\<lambda>pts_world.
             let (lx, ly, _, _) = project_points pts_world
             in map_res (\<lambda>j. bind_res (getitem lx (int j)) (\<lambda>x. bind_res (getitem ly (int j)) (\<lambda>y.
                              bind_res (getitem ls (int j)) (\<lambda>l. Inr (x, y, fst (snd l), snd (snd l))))))
                  [0..<length lx])
      else Inr [])"

text \<open>
  The body of the loop over the faces of a segment, for face number \<open>i\<close>: the items it
  appends to \<^verbatim>\<open>render_list\<close> and the lights it appends to \<^verbatim>\<open>light_draw_queue\<close>.
\<close>

definition face_step ::
  "mat3 \<Rightarrow> vec3 list \<Rightarrow> real list \<Rightarrow> real list \<Rightarrow> bool list \<Rightarrow> light list list \<Rightarrow> nat \<Rightarrow> face
     \<Rightarrow> py_error + (render_item list \<times> proj_light list)" where
  "face_step mat v_world x2d y2d mask_v lights_local i fc =
     (let face_indices = fst fc; edge_flags = snd fc
      in bind_res (all_res (\<lambda>idx. getitem mask_v idx) face_indices)
           (\<lambda>visible.
              if \<not> visible then Inr ([], [])
              else
                bind_res (map_res (\<lambda>idx. bind_res (getitem x2d idx) (\<lambda>x.
                                     bind_res (getitem y2d idx) (\<lambda>y. Inr (x, y)))) face_indices)
                  (\<lambda>points_2d.
                bind_res (map_res (\<lambda>idx. bind_res (getitem v_world idx) (\<lambda>p. Inr (snd (snd p))))
                            face_indices)
                  (\<lambda>zvals.
                if length face_indices = 0 then Inl ZeroDivisionError
                else
                  let avg_z = sum_list zvals / real (length face_indices)
                  in bind_res (getitem lights_local (int i))
                       (\<lambda>ls.
                     bind_res (project_lights mat ls)
                       (\<lambda>proj_lights.
                          let edge_flags_front = edge_flags;
                              front = \<lparr>item_depth = avg_z, item_type = ''face'',
                                       item_points = points_2d,
                                       item_edge_color = FACE_EDGE_FRONT,
                                       item_edge_flags = edge_flags_front,
                                       item_lights = proj_lights, item_is_back = False\<rparr>;
                              back_points = rev points_2d;
                              back_edge_flags = reverse_edge_flags edge_flags_front;
                              back = \<lparr>item_depth = avg_z - DOUBLE_FACE_Z_OFFSET,
                                      item_type = ''face'', item_points = back_points,
                                      item_edge_color = FACE_EDGE_BACK,
                                      item_edge_flags = back_edge_flags,
                                      item_lights = proj_lights, item_is_back = True\<rparr>
                          in Inr ([front, back], proj_lights)))))))"

text \<open>\<^verbatim>\<open>for i, (face_indices, edge_flags) in enumerate(faces_local)\<close>\<close>

fun face_loop ::
  "mat3 \<Rightarrow> vec3 list \<Rightarrow> real list \<Rightarrow> real list \<Rightarrow> bool list \<Rightarrow> light list list
     \<Rightarrow> (nat \<times> face) list \<Rightarrow> render_item list \<times> proj_light list
     \<Rightarrow> py_error + (render_item list \<times> proj_light list)" where
  "face_loop mat v_world x2d y2d mask_v lights_local [] acc = Inr acc"
| "face_loop mat v_world x2d y2d mask_v lights_local ((i, fc) # rest) acc =
     bind_res (face_step mat v_world x2d y2d mask_v lights_local i fc)
       (\<lambda>(items, pl).
          face_loop mat v_world x2d y2d mask_v lights_local rest (fst acc @ items, snd acc @ pl))"

text \<open>\<^verbatim>\<open>for verts_local, edges, faces_local, lights_local in segments\<close>\<close>

fun segments_loop ::
  "mat3 \<Rightarrow> segment list \<Rightarrow> render_item list \<times> proj_light list
     \<Rightarrow> py_error + (render_item list \<times> proj_light list)" where
  "segments_loop mat [] acc = Inr acc"
| "segments_loop mat ((verts_local, edges, faces_local, lights_local) # rest) acc =
     bind_res (array_matmul verts_local (mat_T mat))
       (\<lambda>v_world.
          let (x2d, y2d, mask_v, _) = project_points v_world
          in if length x2d = 0 then segments_loop mat rest acc
             else bind_res (face_loop mat v_world x2d y2d mask_v lights_local
                              (enumerate 0 faces_local) acc)
                    (\<lambda>acc'. segments_loop mat rest acc'))"

text \<open>
  One frame: the render list after \<^verbatim>\<open>render_list.sort(key=lambda x: x[0])\<close> (a stable
  sort) and the light queue.
\<close>

definition build_render_list ::
  "mat3 \<Rightarrow> segment list \<Rightarrow> py_error + (render_item list \<times> proj_light list)" where
  "build_render_list mat segments =
     bind_res (segments_loop mat segments ([], []))
       (\<lambda>(render_list, light_draw_queue).
          Inr (sort_key item_depth render_list, light_draw_queue))"

text \<open>
  The edges the paint loop strokes for one item:
  \<^verbatim>\<open>edge_count = min(len(points), len(edge_flags))\<close>
  \<^verbatim>\<open>for k in range(edge_count):\<close>
  \<^verbatim>\<open>    if edge_flags[k]: pygame.draw.line(screen, edge_color, points[k], points[(k + 1) % len(points)], 1)\<close>
\<close>

definition stroked_edges :: "'a list \<Rightarrow> bool list \<Rightarrow> ('a \<times> 'a) list" where
  "stroked_edges pts edge_flags =
     map (\<lambda>k. (pts ! k, pts ! ((k + 1) mod length pts)))
       (filter (\<lambda>k. edge_flags ! k) [0..<min (length pts) (length edge_flags)])"

section \<open>What the geometry loop appends\<close>

text \<open>
  Names for the pieces of the builder's result, used to state what the loop computes: the
  four vertices of the ring at angle \<open>theta\<close>, the side face \<open>j\<close> between rings \<open>i - 1\<close> and
  \<open>i\<close>, the four side faces of ring step \<open>i\<close>, and the two end caps.
\<close>

definition ring_points :: "real list \<Rightarrow> real list \<Rightarrow> real \<Rightarrow> vec3 list" where
  "ring_points rs zs theta =
     map (\<lambda>j. (rs ! j * cos theta, rs ! j * sin theta, zs ! j)) [0..<points_per_ring]"

definition side_face :: "nat \<Rightarrow> nat \<Rightarrow> nat \<Rightarrow> face" where
  "side_face n_rings i j =
     ([(int i - 1) * 4 + int j, int i * 4 + int j, int i * 4 + int ((j + 1) mod 4),
       (int i - 1) * 4 + int ((j + 1) mod 4)],
      [True, int i = int n_rings - 1, True, i = 1])"

definition side_faces :: "nat \<Rightarrow> nat \<Rightarrow> face list" where
  "side_faces n_rings i = map (side_face n_rings i) [0..<4]"

definition cap_faces :: "nat \<Rightarrow> face list" where
  "cap_faces n_rings =
     [([0, 1, 2, 3], [True, True, True, True]),
      ([(int n_rings - 1) * 4 + 3, (int n_rings - 1) * 4 + 2, (int n_rings - 1) * 4 + 1,
        (int n_rings - 1) * 4], [True, True, True, True])]"

section \<open>What the compositor is measured against\<close>

text \<open>
  The depth key the specification asks for: the arithmetic mean of the z coordinates of the
  face's vertices after the rotation (row times transposed matrix).
\<close>

definition mean_transformed_z :: "mat3 \<Rightarrow> vec3 list \<Rightarrow> int list \<Rightarrow> real" where
  "mean_transformed_z mat verts idxs =
     sum_list (map (\<lambda>idx. snd (snd (vec_mat (verts ! nat idx) (mat_T mat)))) idxs)
       / real (length idxs)"

text \<open>
  A face that names at least one vertex, by indices into the vertex array; a segment with
  at least one vertex, such faces, and one list of lights per face.
\<close>

definition face_ok :: "nat \<Rightarrow> face \<Rightarrow> bool" where
  "face_ok nv fc = (fst fc \<noteq> [] \<and> (\<forall>idx\<in>set (fst fc). 0 \<le> idx \<and> idx < int nv))"

definition segment_ok :: "segment \<Rightarrow> bool" where
  "segment_ok sg =
     (case sg of (verts, edges, faces, lights) \<Rightarrow>
        verts \<noteq> [] \<and> (\<forall>fc\<in>set faces. face_ok (length verts) fc) \<and> length lights = length faces)"

text \<open>Face by face: the front depth and the back depth; the front and the back marker.\<close>

definition expected_depths :: "mat3 \<Rightarrow> vec3 list \<Rightarrow> face list \<Rightarrow> real list" where
  "expected_depths mat verts faces =
     concat (map (\<lambda>fc. [mean_transformed_z mat verts (fst fc),
                         mean_transformed_z mat verts (fst fc) - DOUBLE_FACE_Z_OFFSET]) faces)"

definition expected_sides :: "face list \<Rightarrow> bool list" where
  "expected_sides faces = concat (map (\<lambda>fc. [False, True]) faces)"

definition total_face_count :: "segment list \<Rightarrow> nat" where
  "total_face_count segments = sum_list (map (\<lambda>sg. length (fst (snd (snd sg)))) segments)"

section \<open>Properties of reverse_edge_flags\<close>

lemma reverse_edge_flags_length: "length (reverse_edge_flags fs) = length fs"
  by (cases "length fs \<le> 1") (simp_all add: reverse_edge_flags_def)

lemma reverse_edge_flags_twice: "reverse_edge_flags (reverse_edge_flags fs) = fs"
proof (cases "length fs \<le> 1")
  case True
  then show ?thesis by (simp add: reverse_edge_flags_def)
next
  case False
  then have ne: "fs \<noteq> []" by auto
  from False have "reverse_edge_flags fs = rev (butlast fs) @ [last fs]"
    by (simp add: reverse_edge_flags_def)
  moreover from False have "reverse_edge_flags (rev (butlast fs) @ [last fs]) = butlast fs @ [last fs]"
    by (simp add: reverse_edge_flags_def)
  ultimately show ?thesis using ne by simp
qed

text \<open>
  C4. For every flag list of length at least 2, applying \<open>reverse_edge_flags\<close> twice gives
  the list back; and for every flag list, \<open>reverse_edge_flags\<close> keeps the length.
\<close>

theorem C4_reverse_edge_flags_involution:
  "(2 \<le> length flags \<longrightarrow> reverse_edge_flags (reverse_edge_flags flags) = flags)
   \<and> length (reverse_edge_flags flags') = length flags'"
  by (simp add: reverse_edge_flags_twice reverse_edge_flags_length)

theorem C4_reverse_edge_flags_involution_witness:
  "2 \<le> length [True, False, False] \<and>
   reverse_edge_flags (reverse_edge_flags [True, False, False]) = [True, False, False]
   \<and> reverse_edge_flags [True, False, False] = [False, True, False]
   \<and> length (reverse_edge_flags [True, False, False]) = length [True, False, False]"
  using C4_reverse_edge_flags_involution [of "[True, False, False]" "[True, False, False]"]
  by (simp add: reverse_edge_flags_def)


section \<open>Rotation matrices\<close>

lemma matmul3_assoc: "matmul3 (matmul3 a b) c = matmul3 a (matmul3 b c)"
  by (cases a rule: prod_cases3; cases b rule: prod_cases3; cases c rule: prod_cases3)
     (auto simp: matmul3_def vec_mat_def algebra_simps split: prod.splits)

lemma mat_T_matmul3: "mat_T (matmul3 a b) = matmul3 (mat_T b) (mat_T a)"
  by (auto simp: matmul3_def vec_mat_def mat_T_def algebra_simps split: prod.splits)

lemma matmul3_identity_left: "matmul3 identity3 a = a"
  by (auto simp: matmul3_def vec_mat_def identity3_def split: prod.splits)

lemma det3_matmul3: "det3 (matmul3 a b) = det3 a * det3 b"
  by (auto simp: matmul3_def vec_mat_def det3_def algebra_simps split: prod.splits)

lemma sin_sin_cos_cos: "sin t * sin t + cos t * cos t = (1::real)"
  using sin_cos_squared_add3 [of t] by (simp add: add.commute)

lemma cos_cos_sin_sin: "cos t * cos t + sin t * sin t = (1::real)"
  using sin_cos_squared_add3 [of t] by simp

lemma rotation_matrix_z_orthonormal:
  "matmul3 (rotation_matrix_z t) (mat_T (rotation_matrix_z t)) = identity3"
  by (simp add: rotation_matrix_z_def matmul3_def vec_mat_def mat_T_def identity3_def Let_def
      sin_sin_cos_cos cos_cos_sin_sin)

lemma rotation_matrix_x_orthonormal:
  "matmul3 (rotation_matrix_x t) (mat_T (rotation_matrix_x t)) = identity3"
  by (simp add: rotation_matrix_x_def matmul3_def vec_mat_def mat_T_def identity3_def Let_def
      sin_sin_cos_cos cos_cos_sin_sin)

lemma rotation_matrix_y_orthonormal:
  "matmul3 (rotation_matrix_y t) (mat_T (rotation_matrix_y t)) = identity3"
  by (simp add: rotation_matrix_y_def matmul3_def vec_mat_def mat_T_def identity3_def Let_def
      sin_sin_cos_cos cos_cos_sin_sin)

lemma rotation_matrix_det:
  "det3 (rotation_matrix_z t) = 1" "det3 (rotation_matrix_x t) = 1" "det3 (rotation_matrix_y t) = 1"
  by (simp_all add: rotation_matrix_z_def rotation_matrix_x_def rotation_matrix_y_def det3_def
      Let_def sin_sin_cos_cos cos_cos_sin_sin)

text \<open>A product of two matrices with orthonormal rows has orthonormal rows.\<close>

lemma orthonormal_matmul3:
  assumes "matmul3 a (mat_T a) = identity3" and "matmul3 b (mat_T b) = identity3"
  shows "matmul3 (matmul3 a b) (mat_T (matmul3 a b)) = identity3"
proof -
  have "matmul3 (matmul3 a b) (mat_T (matmul3 a b))
          = matmul3 a (matmul3 (matmul3 b (mat_T b)) (mat_T a))"
    by (simp add: mat_T_matmul3 matmul3_assoc)
  also have "\<dots> = identity3"
    using assms by (simp add: matmul3_identity_left)
  finally show ?thesis .
qed

text \<open>
  C7. For all real yaw, pitch and spin, the matrix M the frame composes as
  rotation_matrix_y(yaw) @ rotation_matrix_x(pitch) @ rotation_matrix_z(spin) is orthonormal:
  M times its transpose is the identity, and its determinant is 1 (over the reals).
\<close>

theorem C7_frame_mat_orthonormal:
  "matmul3 (frame_mat yaw pitch spin) (mat_T (frame_mat yaw pitch spin)) = identity3
   \<and> det3 (frame_mat yaw pitch spin) = 1"
  unfolding frame_mat_def
  by (simp add: orthonormal_matmul3 rotation_matrix_z_orthonormal rotation_matrix_x_orthonormal
      rotation_matrix_y_orthonormal det3_matmul3 rotation_matrix_det)

section \<open>Projection\<close>

lemma frame_mat_zero: "frame_mat 0 0 0 = identity3"
  by (simp add: frame_mat_def rotation_matrix_z_def rotation_matrix_x_def rotation_matrix_y_def
      matmul3_def vec_mat_def identity3_def)

lemma project_points_nonempty:
  "pts \<noteq> [] \<Longrightarrow>
   project_points pts =
     (map (\<lambda>p. WIDTH / 2 + SCALE * fst p) pts, map (\<lambda>p. HEIGHT / 2 - SCALE * fst (snd p)) pts,
      map (\<lambda>p. True) pts, map (\<lambda>p. 1) pts)"
  by (simp add: project_points_def Let_def smul_def o_def split: prod.splits)

text \<open>
  C8. With yaw, pitch and spin 0 the composed matrix is the identity, and the model-space
  point (1, 0, 0), rotated by it and projected, lands on the screen point
  (WIDTH/2 + SCALE, HEIGHT/2) = (652.5, 450). The projection is orthographic: for any
  non-empty array of points, screen x is WIDTH/2 + SCALE * x, screen y is
  HEIGHT/2 - SCALE * y (flipped), and z does not enter either.
\<close>

theorem C8_identity_and_projection:
  "frame_mat 0 0 0 = identity3
   \<and> array_matmul [(1, 0, 0)] (mat_T (frame_mat 0 0 0)) = Inr [(1, 0, 0)]
   \<and> project_points [(1, 0, 0)] = ([WIDTH / 2 + SCALE], [HEIGHT / 2], [True], [1])
   \<and> WIDTH / 2 + SCALE = 652.5 \<and> HEIGHT / 2 = 450
   \<and> (pts \<noteq> [] \<longrightarrow>
        project_points pts =
          (map (\<lambda>(x, y, z). WIDTH / 2 + SCALE * x) pts,
           map (\<lambda>(x, y, z). HEIGHT / 2 - SCALE * y) pts,
           map (\<lambda>p. True) pts, map (\<lambda>p. 1) pts))"
proof -
  have "array_matmul [(1, 0, 0)] (mat_T identity3) = Inr [(1, 0, 0)]"
    by (simp add: array_matmul_def mat_T_def identity3_def vec_mat_def)
  moreover have "project_points [(1, 0, 0)] = ([WIDTH / 2 + SCALE], [HEIGHT / 2], [True], [1])"
    by (simp add: project_points_nonempty)
  moreover have "WIDTH / 2 + SCALE = 652.5 \<and> HEIGHT / 2 = 450"
    by (simp add: WIDTH_def HEIGHT_def SCALE_def)
  moreover have "pts \<noteq> [] \<longrightarrow>
        project_points pts =
          (map (\<lambda>(x, y, z). WIDTH / 2 + SCALE * x) pts,
           map (\<lambda>(x, y, z). HEIGHT / 2 - SCALE * y) pts,
           map (\<lambda>p. True) pts, map (\<lambda>p. 1) pts)"
    by (simp add: project_points_nonempty case_prod_unfold)
  ultimately show ?thesis by (simp add: frame_mat_zero)
qed

theorem C8_identity_and_projection_witness:
  "[(3, 4, 5), (3, 4, 7)] \<noteq> ([] :: vec3 list) \<and>
   project_points [(3, 4, 5), (3, 4, 7)] =
     ([WIDTH / 2 + SCALE * 3, WIDTH / 2 + SCALE * 3],
      [HEIGHT / 2 - SCALE * 4, HEIGHT / 2 - SCALE * 4], [True, True], [1, 1])"
  using C8_identity_and_projection [of "[(3, 4, 5), (3, 4, 7)]"] by simp

section \<open>Sampling a point on a face\<close>







section \<open>The back-face copy of a quadrilateral\<close>

lemma stroked_edges_quad:
  "stroked_edges [p0, p1, p2, p3] [f0, f1, f2, f3] =
     (if f0 then [(p0, p1)] else []) @ (if f1 then [(p1, p2)] else []) @
     (if f2 then [(p2, p3)] else []) @ (if f3 then [(p3, p0)] else [])"
  by (simp add: stroked_edges_def)

text \<open>
  C2. For a polygon of four points with four edge flags, take the back copy: the points
  reversed, the flags through reverse_edge_flags. For each k < 4 the back edge from point k
  to point k+1 (mod 4) is a front edge j run the other way (it goes from front point j+1
  to front point j), and the back flag at k is the front flag at j. So the paint loop
  strokes the same set of edges, as unordered pairs of corners, on both sides. The
  statement holds for any type of corner, so also when the corners are told apart by their
  position in the face.
\<close>

theorem C2_back_face_edge_flags:
  assumes "length pts = 4" and "length flags = 4" and "k < 4"
  shows "(\<exists>j<4. rev pts ! k = pts ! ((j + 1) mod 4) \<and> rev pts ! ((k + 1) mod 4) = pts ! j
                \<and> reverse_edge_flags flags ! k = flags ! j)
    \<and> (\<lambda>e. {fst e, snd e}) ` set (stroked_edges (rev pts) (reverse_edge_flags flags))
        = (\<lambda>e. {fst e, snd e}) ` set (stroked_edges pts flags)"
proof -
  obtain p0 p1 p2 p3 where p: "pts = [p0, p1, p2, p3]"
    using assms(1) by (auto simp: length_Suc_conv numeral_eq_Suc)
  obtain f0 f1 f2 f3 where f: "flags = [f0, f1, f2, f3]"
    using assms(2) by (auto simp: length_Suc_conv numeral_eq_Suc)
  have rf: "reverse_edge_flags [f0, f1, f2, f3] = [f2, f1, f0, f3]"
    by (simp add: reverse_edge_flags_def)
  from assms(3) consider "k = 0" | "k = 1" | "k = 2" | "k = 3" by linarith
  then have A: "\<exists>j<4. rev pts ! k = pts ! ((j + 1) mod 4) \<and> rev pts ! ((k + 1) mod 4) = pts ! j
                \<and> reverse_edge_flags flags ! k = flags ! j"
  proof cases
    case 1 then show ?thesis by (intro exI[of _ 2]) (simp add: p f rf)
  next
    case 2 then show ?thesis by (intro exI[of _ 1]) (simp add: p f rf)
  next
    case 3 then show ?thesis by (intro exI[of _ 0]) (simp add: p f rf)
  next
    case 4 then show ?thesis by (intro exI[of _ 3]) (simp add: p f rf)
  qed
  have B: "(\<lambda>e. {fst e, snd e}) ` set (stroked_edges (rev pts) (reverse_edge_flags flags))
        = (\<lambda>e. {fst e, snd e}) ` set (stroked_edges pts flags)"
    unfolding p f rf by (auto simp: stroked_edges_quad insert_commute)
  from A B show ?thesis by blast
qed

theorem C2_back_face_edge_flags_witness:
  "length [10, 11, 12, 13 :: nat] = 4 \<and> length [True, True, False, False] = 4 \<and> (0::nat) < 4
   \<and> (\<exists>j<4. rev [10, 11, 12, 13 :: nat] ! 0 = [10, 11, 12, 13] ! ((j + 1) mod 4)
            \<and> rev [10, 11, 12, 13 :: nat] ! ((0 + 1) mod 4) = [10, 11, 12, 13] ! j
            \<and> reverse_edge_flags [True, True, False, False] ! 0 = [True, True, False, False] ! j)
   \<and> reverse_edge_flags [True, True, False, False] = [False, True, True, False]
   \<and> stroked_edges [10, 11, 12, 13 :: nat] [True, True, False, False] = [(10, 11), (11, 12)]
   \<and> stroked_edges (rev [10, 11, 12, 13 :: nat]) (reverse_edge_flags [True, True, False, False])
        = [(12, 11), (11, 10)]"
  using C2_back_face_edge_flags [of "[10, 11, 12, 13 :: nat]" "[True, True, False, False]" 0]
  by (simp add: reverse_edge_flags_def stroked_edges_quad)

section \<open>The bevel argument\<close>

text \<open>
  C9. For any two values of the bevel argument and the same values of all the other
  arguments, make_curved_beveled_segment returns the same result (vertices, edge list,
  faces with their flags, or the same error): bevel has no effect.
\<close>

theorem C9_bevel_has_no_effect:
  "make_curved_beveled_segment angle_center angle_span r_inner r_outer height subdivs bevel1
     = make_curved_beveled_segment angle_center angle_span r_inner r_outer height subdivs bevel2"
  by (simp add: make_curved_beveled_segment_def)


section \<open>The geometry builder in closed form\<close>

lemma segment_loop_closed:
  "segment_loop rs zs n (enumerate k ths) (vs, fs) =
     (vs @ concat (map (ring_points rs zs) ths),
      fs @ concat (map (side_faces n) (filter (\<lambda>i. 0 < i) [k..<k + length ths])))"
proof (induction ths arbitrary: k vs fs)
  case Nil
  then show ?case by simp
next
  case (Cons t ths)
  have "[k..<k + length (t # ths)] = k # [Suc k..<k + length (t # ths)]"
    by (rule upt_conv_Cons) simp
  then have upt: "[k..<k + length (t # ths)] = k # [Suc k..<Suc k + length ths]"
    by simp
  show ?case
    unfolding upt
    by (simp add: Cons.IH Let_def ring_points_def side_faces_def side_face_def points_per_ring_def)
qed

lemma filter_pos_upt: "filter (\<lambda>i. 0 < i) [0..<n] = [1..<n]"
proof (cases n)
  case 0 then show ?thesis by simp
next
  case (Suc m)
  have "[0..<Suc m] = 0 # [1..<Suc m]" by (simp add: upt_conv_Cons)
  moreover have "filter (\<lambda>i. 0 < i) [1..<Suc m] = [1..<Suc m]"
    by (rule filter_True) auto
  ultimately show ?thesis using Suc by simp
qed

lemma linspace_length:
  "0 \<le> num \<Longrightarrow> \<exists>ths. linspace a b num = Inr ths \<and> length ths = nat num"
  by (simp add: linspace_def Let_def)

lemma make_segment_closed:
  assumes "0 \<le> subdivs + 1"
  shows "\<exists>ths. length ths = nat (subdivs + 1) \<and>
     make_curved_beveled_segment ac sp ri ro h subdivs bevel =
       Inr (concat (map (ring_points [ri, ro, ro, ri] [- h / 2, - h / 2, h / 2, h / 2]) ths), [],
            concat (map (side_faces (length ths)) [1..<length ths])
            @ [([0, 1, 2, 3], [True, True, True, True]),
               ([(int (length ths) - 1) * 4 + 3, (int (length ths) - 1) * 4 + 2,
                 (int (length ths) - 1) * 4 + 1, (int (length ths) - 1) * 4],
                [True, True, True, True])])"
proof -
  obtain ths where l: "linspace (ac - sp * 0.5) (ac + sp * 0.5) (subdivs + 1) = Inr ths"
    and n: "length ths = nat (subdivs + 1)"
    using linspace_length [OF assms] by blast
  have "segment_loop [ri, ro, ro, ri] [- h / 2, - h / 2, h / 2, h / 2] (length ths) (enumerate 0 ths) ([], [])
     = (concat (map (ring_points [ri, ro, ro, ri] [- h / 2, - h / 2, h / 2, h / 2]) ths),
        concat (map (side_faces (length ths)) [1..<length ths]))"
    using segment_loop_closed [of _ _ _ 0 ths "[]" "[]"] by (simp add: filter_pos_upt)
  then show ?thesis
    using n l by (intro exI[of _ ths]) (simp add: make_curved_beveled_segment_def Let_def bind_res_def points_per_ring_def numeral_eq_Suc)
qed


lemma length_concat_uniform:
  "(\<And>x. x \<in> set xs \<Longrightarrow> length (f x) = m) \<Longrightarrow> length (concat (map f xs)) = m * length xs"
  by (induction xs) simp_all

lemma nth_concat_uniform:
  "(\<And>x. x \<in> set xs \<Longrightarrow> length (f x) = m) \<Longrightarrow> a < length xs \<Longrightarrow> j < m \<Longrightarrow>
   concat (map f xs) ! (a * m + j) = f (xs ! a) ! j"
proof (induction xs arbitrary: a)
  case Nil
  then show ?case by simp
next
  case (Cons x xs)
  show ?case
  proof (cases a)
    case 0
    then show ?thesis using Cons.prems by (simp add: nth_append)
  next
    case (Suc a')
    have "concat (map f xs) ! (a' * m + j) = f (xs ! a') ! j"
      using Cons.prems Suc by (intro Cons.IH) auto
    moreover have "length (f x) = m" using Cons.prems by simp
    ultimately show ?thesis using Suc by (simp add: nth_append)
  qed
qed

lemma length_ring_points: "length (ring_points rs zs t) = 4"
  by (simp add: ring_points_def points_per_ring_def)

lemma length_side_faces: "length (side_faces n i) = 4"
  by (simp add: side_faces_def)

lemma side_faces_nth: "j < 4 \<Longrightarrow> side_faces n i ! j = side_face n i j"
  by (simp add: side_faces_def)


lemma make_segment_shape:
  assumes "0 \<le> subdivs + 1"
  shows "\<exists>verts.
     make_curved_beveled_segment ac sp ri ro h subdivs bevel =
       Inr (verts, [], concat (map (side_faces (nat (subdivs + 1))) [1..<nat (subdivs + 1)])
                       @ cap_faces (nat (subdivs + 1)))
     \<and> length verts = 4 * nat (subdivs + 1)"
proof -
  from make_segment_closed [OF assms, of ac sp ri ro h bevel]
  obtain ths where n: "length ths = nat (subdivs + 1)" and
    m: "make_curved_beveled_segment ac sp ri ro h subdivs bevel =
       Inr (concat (map (ring_points [ri, ro, ro, ri] [- h / 2, - h / 2, h / 2, h / 2]) ths), [],
            concat (map (side_faces (length ths)) [1..<length ths])
            @ [([0, 1, 2, 3], [True, True, True, True]),
               ([(int (length ths) - 1) * 4 + 3, (int (length ths) - 1) * 4 + 2,
                 (int (length ths) - 1) * 4 + 1, (int (length ths) - 1) * 4],
                [True, True, True, True])])"
    by blast
  define verts where "verts = concat (map (ring_points [ri, ro, ro, ri] [- h / 2, - h / 2, h / 2, h / 2]) ths)"
  have v: "length verts = 4 * length ths"
    unfolding verts_def by (rule length_concat_uniform) (rule length_ring_points)
  have "make_curved_beveled_segment ac sp ri ro h subdivs bevel =
       Inr (verts, [], concat (map (side_faces (nat (subdivs + 1))) [1..<nat (subdivs + 1)])
                       @ cap_faces (nat (subdivs + 1)))"
    unfolding m verts_def n cap_faces_def by (rule refl)
  with v n show ?thesis by auto
qed

lemma length_side_part: "length (concat (map (side_faces n) [1..<n])) = 4 * (n - 1)"
  using length_concat_uniform [of "[1..<n]" "side_faces n" 4]
  by (simp add: length_side_faces)

text \<open>
  C3. For every subdivisions >= 1 and any angle, radius, height and bevel arguments,
  make_curved_beveled_segment returns, without raising, exactly 4 * (subdivisions + 1)
  vertices and subdivisions * 4 + 2 faces; with subdivisions = 6, 28 vertices and 26 faces.
\<close>

theorem C3_segment_counts:
  assumes "1 \<le> subdivs"
  shows "\<exists>verts edges faces.
           make_curved_beveled_segment angle_center angle_span r_inner r_outer height subdivs bevel
             = Inr (verts, edges, faces)
           \<and> int (length verts) = 4 * (subdivs + 1) \<and> int (length faces) = subdivs * 4 + 2"
proof -
  from assms have "0 \<le> subdivs + 1" by simp
  from make_segment_shape [OF this, of angle_center angle_span r_inner r_outer height bevel]
  obtain verts where
    m: "make_curved_beveled_segment angle_center angle_span r_inner r_outer height subdivs bevel =
       Inr (verts, [], concat (map (side_faces (nat (subdivs + 1))) [1..<nat (subdivs + 1)])
                       @ cap_faces (nat (subdivs + 1)))"
    and v: "length verts = 4 * nat (subdivs + 1)"
    by blast
  have "int (length verts) = 4 * (subdivs + 1)"
    using v assms by simp
  moreover have "int (length (concat (map (side_faces (nat (subdivs + 1))) [1..<nat (subdivs + 1)])
                       @ cap_faces (nat (subdivs + 1)))) = subdivs * 4 + 2"
    unfolding length_append length_side_part using assms by (simp add: cap_faces_def)
  ultimately show ?thesis using m by blast
qed

theorem C3_segment_counts_witness:
  "(1::int) \<le> 6 \<and> (\<exists>verts edges faces.
      make_curved_beveled_segment 0 (27 * pi / 180) 4.5 7.5 2.5 6 0.15 = Inr (verts, edges, faces)
      \<and> length verts = 28 \<and> length faces = 26)"
  using C3_segment_counts [of 6 0 "27 * pi / 180" "4.5" "7.5" "2.5" "0.15"] by simp



lemma side_part_nth:
  assumes "1 \<le> i" "i < n" "j < 4"
  shows "concat (map (side_faces n) [1..<n]) ! (4 * (i - 1) + j) = side_face n i j"
proof -
  have "concat (map (side_faces n) [1..<n]) ! ((i - 1) * 4 + j) = side_faces n ([1..<n] ! (i - 1)) ! j"
    using assms by (intro nth_concat_uniform) (auto simp: length_side_faces)
  moreover have "[1..<n] ! (i - 1) = i" using assms by simp
  ultimately show ?thesis using assms by (simp add: side_faces_nth mult.commute)
qed

text \<open>
  C5. For every subdivisions >= 1 the builder returns 4 * subdivisions + 2 faces: for each
  ring step i from 1 to subdivisions and each j < 4, the face at position 4 * (i - 1) + j
  joins rings i - 1 and i along cross-section edge j and carries the flags
  [True, i is the last ring, True, i is the first ring step]; the last two faces, the end
  caps, carry four True flags.
\<close>

theorem C5_face_edge_flags:
  assumes "1 \<le> subdivs"
  shows "\<exists>verts edges faces.
           make_curved_beveled_segment angle_center angle_span r_inner r_outer height subdivs bevel
             = Inr (verts, edges, faces)
           \<and> length faces = 4 * nat subdivs + 2
           \<and> (\<forall>i j. 1 \<le> i \<and> i \<le> nat subdivs \<and> j < 4 \<longrightarrow>
                 faces ! (4 * (i - 1) + j) =
                   ([(int i - 1) * 4 + int j, int i * 4 + int j, int i * 4 + int ((j + 1) mod 4),
                     (int i - 1) * 4 + int ((j + 1) mod 4)],
                    [True, i = nat subdivs, True, i = 1]))
           \<and> snd (faces ! (4 * nat subdivs)) = [True, True, True, True]
           \<and> snd (faces ! (4 * nat subdivs + 1)) = [True, True, True, True]"
proof -
  define n where "n = nat (subdivs + 1)"
  have n: "n = nat subdivs + 1" using assms by (simp add: n_def)
  define sides where "sides = concat (map (side_faces n) [1..<n])"
  from assms have "0 \<le> subdivs + 1" by simp
  from make_segment_shape [OF this, of angle_center angle_span r_inner r_outer height bevel]
  obtain verts where
    m: "make_curved_beveled_segment angle_center angle_span r_inner r_outer height subdivs bevel =
       Inr (verts, [], sides @ cap_faces n)"
    unfolding sides_def n_def by blast
  have ls: "length sides = 4 * nat subdivs"
    unfolding sides_def length_side_part by (simp add: n)
  have 1: "length (sides @ cap_faces n) = 4 * nat subdivs + 2"
    by (simp add: ls cap_faces_def)
  have 2: "(sides @ cap_faces n) ! (4 * (i - 1) + j) =
                   ([(int i - 1) * 4 + int j, int i * 4 + int j, int i * 4 + int ((j + 1) mod 4),
                     (int i - 1) * 4 + int ((j + 1) mod 4)],
                    [True, i = nat subdivs, True, i = 1])"
    if "1 \<le> i \<and> i \<le> nat subdivs \<and> j < 4" for i j
  proof -
    from that have lt: "4 * (i - 1) + j < length sides" unfolding ls by linarith
    have "(sides @ cap_faces n) ! (4 * (i - 1) + j) = sides ! (4 * (i - 1) + j)"
      using lt by (simp add: nth_append)
    also have "\<dots> = side_face n i j"
      unfolding sides_def using that n by (intro side_part_nth) auto
    also have "\<dots> = ([(int i - 1) * 4 + int j, int i * 4 + int j, int i * 4 + int ((j + 1) mod 4),
                     (int i - 1) * 4 + int ((j + 1) mod 4)],
                    [True, i = nat subdivs, True, i = 1])"
      using n by (auto simp: side_face_def)
    finally show ?thesis .
  qed
  have 3: "snd ((sides @ cap_faces n) ! (4 * nat subdivs)) = [True, True, True, True]"
    using ls by (simp add: nth_append cap_faces_def)
  have 4: "snd ((sides @ cap_faces n) ! (4 * nat subdivs + 1)) = [True, True, True, True]"
    using ls by (simp add: nth_append cap_faces_def)
  from m 1 2 3 4 show ?thesis by blast
qed



theorem C5_face_edge_flags_witness:
  "(1::int) \<le> 2
   \<and> (1::nat) \<le> 1 \<and> (1::nat) \<le> nat 2 \<and> (0::nat) < 4
   \<and> (1::nat) \<le> 2 \<and> (2::nat) \<le> nat 2 \<and> (3::nat) < 4
   \<and> (\<exists>verts edges faces.
         make_curved_beveled_segment 0 1 1 2 1 2 (1 / 10) = Inr (verts, edges, faces)
       \<and> length faces = 10
       \<and> faces ! 0 = ([0, 4, 5, 1], [True, False, True, True])
       \<and> faces ! 7 = ([7, 11, 8, 4], [True, True, True, False])
       \<and> snd (faces ! 8) = [True, True, True, True]
       \<and> snd (faces ! 9) = [True, True, True, True])"
proof -
  from C5_face_edge_flags [of 2 0 1 1 2 1 "1 / 10"]
  obtain verts edges faces where
    m: "make_curved_beveled_segment 0 1 1 2 1 2 (1 / 10) = Inr (verts, edges, faces)"
    and l: "length faces = 4 * nat 2 + 2"
    and s: "\<forall>i j. 1 \<le> i \<and> i \<le> nat 2 \<and> j < 4 \<longrightarrow>
                 faces ! (4 * (i - 1) + j) =
                   ([(int i - 1) * 4 + int j, int i * 4 + int j, int i * 4 + int ((j + 1) mod 4),
                     (int i - 1) * 4 + int ((j + 1) mod 4)],
                    [True, i = nat 2, True, i = 1])"
    and c: "snd (faces ! (4 * nat 2)) = [True, True, True, True]"
      "snd (faces ! (4 * nat 2 + 1)) = [True, True, True, True]"
    by auto
  from s [rule_format, of 1 0] have f0: "faces ! 0 = ([0, 4, 5, 1], [True, False, True, True])"
    by simp
  from s [rule_format, of 2 3] have f7: "faces ! 7 = ([7, 11, 8, 4], [True, True, True, False])"
    by simp
  from m l f0 f7 c show ?thesis by simp
qed

section \<open>The compositor on well-formed segments\<close>

lemma getitem_nat: "0 \<le> i \<Longrightarrow> i < int (length xs) \<Longrightarrow> getitem xs i = Inr (xs ! nat i)"
  by (simp add: getitem_def)

lemma bind_res_Inr [simp]: "bind_res (Inr x) f = f x"
  by (simp add: bind_res_def)

lemma bind_res_Inl [simp]: "bind_res (Inl e) f = Inl e"
  by (simp add: bind_res_def)

lemma map_res_eq_map: "(\<And>x. x \<in> set xs \<Longrightarrow> f x = Inr (g x)) \<Longrightarrow> map_res f xs = Inr (map g xs)"
  by (induction xs) simp_all

lemma all_res_True: "(\<And>x. x \<in> set xs \<Longrightarrow> f x = Inr True) \<Longrightarrow> all_res f xs = Inr True"
  by (induction xs) simp_all

lemma project_lights_ok: "\<exists>pl. project_lights mat ls = Inr pl"
proof (cases "ls = []")
  case True
  then show ?thesis by (simp add: project_lights_def)
next
  case False
  define pw where "pw = map (\<lambda>p. vec_mat p (mat_T mat)) (map fst ls)"
  have am: "array_matmul (map fst ls) (mat_T mat) = Inr pw"
    using False by (simp add: array_matmul_def pw_def)
  have ne: "pw \<noteq> []" using False by (simp add: pw_def)
  define lx where "lx = map (\<lambda>p. WIDTH / 2 + SCALE * fst p) pw"
  define ly where "ly = map (\<lambda>p. HEIGHT / 2 - SCALE * fst (snd p)) pw"
  have pp: "project_points pw = (lx, ly, map (\<lambda>p. True) pw, map (\<lambda>p. 1) pw)"
    using project_points_nonempty [OF ne] by (simp add: lx_def ly_def)
  have len: "length lx = length ls" "length ly = length ls" by (simp_all add: lx_def ly_def pw_def)
  have "map_res (\<lambda>j. bind_res (getitem lx (int j)) (\<lambda>x. bind_res (getitem ly (int j)) (\<lambda>y.
                              bind_res (getitem ls (int j)) (\<lambda>l. Inr (x, y, fst (snd l), snd (snd l))))))
                  [0..<length lx]
        = Inr (map (\<lambda>j. (lx ! j, ly ! j, fst (snd (ls ! j)), snd (snd (ls ! j)))) [0..<length lx])"
    by (rule map_res_eq_map) (simp add: getitem_nat len)
  then show ?thesis
    using False by (simp add: project_lights_def am pp)
qed

lemma face_step_ok:
  assumes ok: "face_ok (length verts) fc" and ne: "verts \<noteq> []" and i: "i < length lights_local"
  shows "\<exists>front back pl.
     face_step mat (map (\<lambda>p. vec_mat p (mat_T mat)) verts)
        (map (\<lambda>p. WIDTH / 2 + SCALE * fst p) (map (\<lambda>p. vec_mat p (mat_T mat)) verts))
        (map (\<lambda>p. HEIGHT / 2 - SCALE * fst (snd p)) (map (\<lambda>p. vec_mat p (mat_T mat)) verts))
        (map (\<lambda>p. True) (map (\<lambda>p. vec_mat p (mat_T mat)) verts)) lights_local i fc
       = Inr ([front, back], pl)
     \<and> item_depth front = mean_transformed_z mat verts (fst fc)
     \<and> item_depth back = mean_transformed_z mat verts (fst fc) - DOUBLE_FACE_Z_OFFSET
     \<and> \<not> item_is_back front \<and> item_is_back back
     \<and> item_type front = ''face'' \<and> item_type back = ''face''"
proof -
  define vw where "vw = map (\<lambda>p. vec_mat p (mat_T mat)) verts"
  define x2d where "x2d = map (\<lambda>p. WIDTH / 2 + SCALE * fst p) vw"
  define y2d where "y2d = map (\<lambda>p. HEIGHT / 2 - SCALE * fst (snd p)) vw"
  define mask where "mask = map (\<lambda>p. True) vw"
  have len: "length vw = length verts" "length x2d = length verts" "length y2d = length verts"
    "length mask = length verts"
    by (simp_all add: vw_def x2d_def y2d_def mask_def)
  have rng: "0 \<le> idx \<and> idx < int (length verts)" if "idx \<in> set (fst fc)" for idx
    using ok that by (simp add: face_ok_def)
  have nonempty: "fst fc \<noteq> []" using ok by (simp add: face_ok_def)
  have a: "all_res (\<lambda>idx. getitem mask idx) (fst fc) = Inr True"
  proof (rule all_res_True)
    fix idx assume "idx \<in> set (fst fc)"
    then have r: "0 \<le> idx" "idx < int (length mask)" using rng len by auto
    then have "nat idx < length vw" using len by simp
    then show "getitem mask idx = Inr True"
      using r by (simp add: getitem_nat mask_def)
  qed
  have b: "map_res (\<lambda>idx. bind_res (getitem x2d idx) (\<lambda>x. bind_res (getitem y2d idx) (\<lambda>y. Inr (x, y))))
              (fst fc) = Inr (map (\<lambda>idx. (x2d ! nat idx, y2d ! nat idx)) (fst fc))"
    by (rule map_res_eq_map) (use rng len in \<open>simp add: getitem_nat\<close>)
  have c: "map_res (\<lambda>idx. bind_res (getitem vw idx) (\<lambda>p. Inr (snd (snd p)))) (fst fc)
             = Inr (map (\<lambda>idx. snd (snd (vec_mat (verts ! nat idx) (mat_T mat)))) (fst fc))"
  proof (rule map_res_eq_map)
    fix idx assume "idx \<in> set (fst fc)"
    then have r: "0 \<le> idx" "idx < int (length verts)" using rng by auto
    then have "nat idx < length verts" by simp
    then have "vw ! nat idx = vec_mat (verts ! nat idx) (mat_T mat)" by (simp add: vw_def)
    then show "bind_res (getitem vw idx) (\<lambda>p. Inr (snd (snd p)))
                 = Inr (snd (snd (vec_mat (verts ! nat idx) (mat_T mat))))"
      using r len by (simp add: getitem_nat)
  qed
  have d: "getitem lights_local (int i) = Inr (lights_local ! i)"
    using i by (simp add: getitem_nat)
  obtain pl where e: "project_lights mat (lights_local ! i) = Inr pl"
    using project_lights_ok by blast
  show ?thesis
    unfolding vw_def [symmetric] x2d_def [symmetric] y2d_def [symmetric] mask_def [symmetric]
    using nonempty
    by (simp add: face_step_def Let_def a b c d e mean_transformed_z_def)
qed


lemma face_loop_ok:
  assumes "\<forall>fc\<in>set faces. face_ok (length verts) fc" and "verts \<noteq> []"
    and "k + length faces \<le> length lights_local"
  shows "\<exists>its pls.
     face_loop mat (map (\<lambda>p. vec_mat p (mat_T mat)) verts)
        (map (\<lambda>p. WIDTH / 2 + SCALE * fst p) (map (\<lambda>p. vec_mat p (mat_T mat)) verts))
        (map (\<lambda>p. HEIGHT / 2 - SCALE * fst (snd p)) (map (\<lambda>p. vec_mat p (mat_T mat)) verts))
        (map (\<lambda>p. True) (map (\<lambda>p. vec_mat p (mat_T mat)) verts)) lights_local
        (enumerate k faces) (rl, q)
       = Inr (rl @ its, q @ pls)
     \<and> map item_depth its = expected_depths mat verts faces
     \<and> map item_is_back its = expected_sides faces
     \<and> (\<forall>it\<in>set its. item_type it = ''face'')"
  using assms
proof (induction faces arbitrary: k rl q)
  case Nil
  then show ?case by (simp add: expected_depths_def expected_sides_def)
next
  case (Cons fc faces)
  from Cons.prems have ok: "face_ok (length verts) fc" and i: "k < length lights_local"
    by auto
  from face_step_ok [OF ok Cons.prems(2) i, of mat]
  obtain fr bk pl where
    st: "face_step mat (map (\<lambda>p. vec_mat p (mat_T mat)) verts)
        (map (\<lambda>p. WIDTH / 2 + SCALE * fst p) (map (\<lambda>p. vec_mat p (mat_T mat)) verts))
        (map (\<lambda>p. HEIGHT / 2 - SCALE * fst (snd p)) (map (\<lambda>p. vec_mat p (mat_T mat)) verts))
        (map (\<lambda>p. True) (map (\<lambda>p. vec_mat p (mat_T mat)) verts)) lights_local k fc
       = Inr ([fr, bk], pl)"
    and fb: "item_depth fr = mean_transformed_z mat verts (fst fc)"
      "item_depth bk = mean_transformed_z mat verts (fst fc) - DOUBLE_FACE_Z_OFFSET"
      "\<not> item_is_back fr" "item_is_back bk"
      "item_type fr = ''face''" "item_type bk = ''face''"
    by blast
  have "\<forall>fc\<in>set faces. face_ok (length verts) fc" "Suc k + length faces \<le> length lights_local"
    using Cons.prems by auto
  from Cons.IH [OF this(1) Cons.prems(2) this(2), of "rl @ [fr, bk]" "q @ pl"]
  obtain its pls where
    lp: "face_loop mat (map (\<lambda>p. vec_mat p (mat_T mat)) verts)
        (map (\<lambda>p. WIDTH / 2 + SCALE * fst p) (map (\<lambda>p. vec_mat p (mat_T mat)) verts))
        (map (\<lambda>p. HEIGHT / 2 - SCALE * fst (snd p)) (map (\<lambda>p. vec_mat p (mat_T mat)) verts))
        (map (\<lambda>p. True) (map (\<lambda>p. vec_mat p (mat_T mat)) verts)) lights_local
        (enumerate (Suc k) faces) (rl @ [fr, bk], q @ pl)
       = Inr ((rl @ [fr, bk]) @ its, (q @ pl) @ pls)"
    and r: "map item_depth its = expected_depths mat verts faces"
      "map item_is_back its = expected_sides faces"
      "\<forall>it\<in>set its. item_type it = ''face''"
    by blast
  show ?case
    apply (rule exI [of _ "[fr, bk] @ its"])
    apply (rule exI [of _ "pl @ pls"])
    using st lp r fb by (simp add: expected_depths_def expected_sides_def)
qed

lemma segments_loop_ok:
  assumes "\<forall>sg\<in>set segments. segment_ok sg"
  shows "\<exists>its pls.
     segments_loop mat segments (rl, q) = Inr (rl @ its, q @ pls)
     \<and> map item_depth its =
         concat (map (\<lambda>sg. expected_depths mat (fst sg) (fst (snd (snd sg)))) segments)
     \<and> map item_is_back its = concat (map (\<lambda>sg. expected_sides (fst (snd (snd sg)))) segments)
     \<and> (\<forall>it\<in>set its. item_type it = ''face'')"
  using assms
proof (induction segments arbitrary: rl q)
  case Nil
  then show ?case by simp
next
  case (Cons sg segments)
  obtain verts edges faces lights where sg: "sg = (verts, edges, faces, lights)"
    by (cases sg) auto
  from Cons.prems have ok: "verts \<noteq> []" "\<forall>fc\<in>set faces. face_ok (length verts) fc"
    "length lights = length faces"
    by (simp_all add: sg segment_ok_def)
  define vw where "vw = map (\<lambda>p. vec_mat p (mat_T mat)) verts"
  have am: "array_matmul verts (mat_T mat) = Inr vw"
    using ok(1) by (simp add: array_matmul_def vw_def)
  have ne: "vw \<noteq> []" using ok(1) by (simp add: vw_def)
  have pp: "project_points vw =
     (map (\<lambda>p. WIDTH / 2 + SCALE * fst p) vw, map (\<lambda>p. HEIGHT / 2 - SCALE * fst (snd p)) vw,
      map (\<lambda>p. True) vw, map (\<lambda>p. 1) vw)"
    by (rule project_points_nonempty [OF ne])
  from ok(3) have "0 + length faces \<le> length lights" by simp
  from face_loop_ok [OF ok(2) ok(1) this, of mat rl q]
  obtain its pls where
    fl: "face_loop mat vw (map (\<lambda>p. WIDTH / 2 + SCALE * fst p) vw)
           (map (\<lambda>p. HEIGHT / 2 - SCALE * fst (snd p)) vw) (map (\<lambda>p. True) vw) lights
           (enumerate 0 faces) (rl, q) = Inr (rl @ its, q @ pls)"
    and r: "map item_depth its = expected_depths mat verts faces"
      "map item_is_back its = expected_sides faces"
      "\<forall>it\<in>set its. item_type it = ''face''"
    unfolding vw_def by blast
  from Cons.prems have "\<forall>sg\<in>set segments. segment_ok sg" by simp
  from Cons.IH [OF this, of "rl @ its" "q @ pls"]
  obtain its' pls' where
    sl: "segments_loop mat segments (rl @ its, q @ pls) = Inr ((rl @ its) @ its', (q @ pls) @ pls')"
    and r': "map item_depth its' =
         concat (map (\<lambda>sg. expected_depths mat (fst sg) (fst (snd (snd sg)))) segments)"
      "map item_is_back its' = concat (map (\<lambda>sg. expected_sides (fst (snd (snd sg)))) segments)"
      "\<forall>it\<in>set its'. item_type it = ''face''"
    by blast
  have "segments_loop mat (sg # segments) (rl, q) = Inr (rl @ its @ its', q @ pls @ pls')"
    using ne sl by (simp add: sg am pp fl)
  then show ?case
    apply (intro exI [of _ "its @ its'"] exI [of _ "pls @ pls'"])
    using r r' by (auto simp: sg)
qed


lemma length_expected_depths: "length (expected_depths mat verts faces) = 2 * length faces"
  unfolding expected_depths_def by (rule length_concat_uniform) simp

lemma length_all_expected_depths:
  "length (concat (map (\<lambda>sg. expected_depths mat (fst sg) (fst (snd (snd sg)))) segments))
     = 2 * total_face_count segments"
  by (induction segments) (simp_all add: total_face_count_def length_expected_depths)

lemma project_points_mask: "fst (snd (snd (project_points pts))) = replicate (length pts) True"
proof (cases "pts = []")
  case True
  then show ?thesis by (simp add: project_points_def)
next
  case False
  then show ?thesis by (simp add: project_points_nonempty map_replicate_const)
qed

lemma side_face_valid:
  assumes "1 \<le> i" "i < n" "j < 4"
  shows "length (fst (side_face n i j)) = 4 \<and> length (snd (side_face n i j)) = 4
         \<and> (\<forall>idx\<in>set (fst (side_face n i j)). 0 \<le> idx \<and> idx < 4 * int n)"
proof -
  have "(j + 1) mod 4 < 4" by simp
  then show ?thesis using assms by (auto simp: side_face_def)
qed

lemma built_faces_valid:
  assumes "1 \<le> n" and "fc \<in> set (concat (map (side_faces n) [1..<n]) @ cap_faces n)"
  shows "length (fst fc) = 4 \<and> length (snd fc) = 4
         \<and> (\<forall>idx\<in>set (fst fc). 0 \<le> idx \<and> idx < 4 * int n)"
proof -
  from assms(2) consider "fc \<in> set (concat (map (side_faces n) [1..<n]))" | "fc \<in> set (cap_faces n)"
    by auto
  then show ?thesis
  proof cases
    case 1
    then obtain i j where "1 \<le> i" "i < n" "j < 4" "fc = side_face n i j"
      by (auto simp: side_faces_def)
    then show ?thesis using side_face_valid by blast
  next
    case 2
    then show ?thesis using assms(1) by (auto simp: cap_faces_def)
  qed
qed

lemma built_segment_ok:
  assumes "0 \<le> subdivs"
    and "make_curved_beveled_segment ac sp ri ro h subdivs bevel = Inr (verts, edges, faces)"
    and "length lights = length faces"
  shows "segment_ok (verts, edges, faces, lights)"
proof -
  define n where "n = nat (subdivs + 1)"
  have n: "1 \<le> n" using assms(1) by (simp add: n_def)
  from assms(1) have "0 \<le> subdivs + 1" by simp
  from make_segment_shape [OF this, of ac sp ri ro h bevel] assms(2)
  have f: "faces = concat (map (side_faces n) [1..<n]) @ cap_faces n"
    and v: "length verts = 4 * n"
    unfolding n_def by auto
  have "face_ok (length verts) fc" if "fc \<in> set faces" for fc
    using built_faces_valid [OF n, of fc] that unfolding f v face_ok_def by auto
  moreover have "verts \<noteq> []" using v n by auto
  ultimately show ?thesis using assms(3) by (simp add: segment_ok_def)
qed

lemma sample_point_on_quad_ok:
  assumes "length face = 4" and "\<forall>idx\<in>set face. 0 \<le> idx \<and> idx < int (length verts)"
  shows "\<exists>p. sample_point_on_quad verts face u v = Inr p"
proof -
  obtain i0 i1 i2 i3 where f: "face = [i0, i1, i2, i3]"
    using assms(1) by (auto simp: length_Suc_conv numeral_eq_Suc)
  have mr: "map_res (\<lambda>idx. getitem verts idx) face = Inr (map (\<lambda>idx. verts ! nat idx) face)"
    by (rule map_res_eq_map) (use assms(2) in \<open>simp add: getitem_nat\<close>)
  show ?thesis
    unfolding sample_point_on_quad_def mr by (simp add: f) (metis prod_cases3)
qed


section \<open>The segments main builds\<close>

lemma generate_one_light_ok:
  assumes "length face = 4" and "\<forall>idx\<in>set face. 0 \<le> idx \<and> idx < int (length verts)"
  shows "\<exists>new. generate_lights_for_face verts face 1 draws = Inr new"
proof -
  obtain u v sz col where d: "draws 0 = (u, v, sz, col)" by (cases "draws 0") auto
  obtain p where "sample_point_on_quad verts face u v = Inr p"
    using sample_point_on_quad_ok [OF assms] by blast
  then show ?thesis by (simp add: generate_lights_for_face_def d)
qed

lemma lights_loop_ok:
  assumes "\<forall>fc\<in>set f. length (fst fc) = 4 \<and> (\<forall>idx\<in>set (fst fc). 0 \<le> idx \<and> idx < int (length v))"
    and "length fl = length f" and "\<forall>k\<in>set ks. fst (rnd k) < length f"
  shows "\<exists>fl'. lights_loop v f rnd ks fl = Inr fl' \<and> length fl' = length f"
  using assms(2,3)
proof (induction ks arbitrary: fl)
  case Nil
  then show ?case by simp
next
  case (Cons k ks)
  from Cons.prems have lt: "fst (rnd k) < length f" by simp
  then have g1: "getitem fl (int (fst (rnd k))) = Inr (fl ! fst (rnd k))"
    and g2: "getitem f (int (fst (rnd k))) = Inr (f ! fst (rnd k))"
    using Cons.prems(1) by (simp_all add: getitem_nat)
  from lt have "f ! fst (rnd k) \<in> set f" by simp
  with assms(1) have "length (fst (f ! fst (rnd k))) = 4"
    "\<forall>idx\<in>set (fst (f ! fst (rnd k))). 0 \<le> idx \<and> idx < int (length v)"
    by auto
  from generate_one_light_ok [OF this, of "\<lambda>_. snd (rnd k)"]
  obtain new where
    g3: "generate_lights_for_face v (fst (f ! fst (rnd k))) (Suc 0) (\<lambda>_. snd (rnd k)) = Inr new"
    by auto
  have "length (fl[fst (rnd k) := fl ! fst (rnd k) @ new]) = length f"
    using Cons.prems(1) by simp
  from Cons.IH [OF this] Cons.prems(2)
  obtain fl' where "lights_loop v f rnd ks (fl[fst (rnd k) := fl ! fst (rnd k) @ new]) = Inr fl'"
    "length fl' = length f"
    by auto
  then show ?case by (simp add: Let_def g1 g2 g3)
qed

lemma map_res_ok:
  "(\<And>x. x \<in> set xs \<Longrightarrow> \<exists>y. f x = Inr y \<and> P y) \<Longrightarrow>
   \<exists>ys. map_res f xs = Inr ys \<and> length ys = length xs \<and> (\<forall>y\<in>set ys. P y)"
proof (induction xs)
  case Nil
  then show ?case by simp
next
  case (Cons x xs)
  from Cons.prems obtain y where y: "f x = Inr y" "P y" by auto
  from Cons.IH Cons.prems obtain ys where
    ys: "map_res f xs = Inr ys" "length ys = length xs" "\<forall>y\<in>set ys. P y"
    by auto
  show ?case using y ys by simp
qed

lemma total_face_count_uniform:
  "(\<And>sg. sg \<in> set segments \<Longrightarrow> length (fst (snd (snd sg))) = m) \<Longrightarrow>
   total_face_count segments = m * length segments"
  by (induction segments) (simp_all add: total_face_count_def)

lemma main_segments_ok:
  assumes "\<forall>i<12. \<forall>k<200. fst (rnd i k) < 26"
  shows "\<exists>segments. main_segments rnd = Inr segments \<and> length segments = 12
           \<and> (\<forall>sg\<in>set segments. segment_ok sg \<and> length (fst sg) = 28
                                   \<and> length (fst (snd (snd sg))) = 26)"
proof -
  have step: "\<exists>sg. (let step = ARC_SPAN / real N_SEGMENTS
        in bind_res (make_curved_beveled_segment (ARC_START + step * (real i + 0.5)) ANGLE_SPAN
                       R_INNER R_OUTER SEG_HEIGHT SUBDIVISIONS BEVEL_SIZE)
             (\<lambda>(v, e, f).
                let face_lights = replicate (length f) []
                in bind_res (if length f > 0 \<and> LIGHTS_PER_SEGMENT > 0
                             then lights_loop v f (rnd i) [0..<LIGHTS_PER_SEGMENT] face_lights
                             else Inr face_lights)
                     (\<lambda>face_lights'. Inr (v, e, f, face_lights')))) = Inr sg
       \<and> (segment_ok sg \<and> length (fst sg) = 28 \<and> length (fst (snd (snd sg))) = 26)"
    if "i \<in> set [0..<N_SEGMENTS]" for i
  proof -
    from that have i: "i < 12" by (simp add: N_SEGMENTS_def)
    define ac where "ac = ARC_START + ARC_SPAN / real N_SEGMENTS * (real i + 0.5)"
    have "0 \<le> (6::int) + 1" by simp
    from make_segment_shape [OF this, of ac ANGLE_SPAN R_INNER R_OUTER SEG_HEIGHT BEVEL_SIZE]
    obtain v where
      m: "make_curved_beveled_segment ac ANGLE_SPAN R_INNER R_OUTER SEG_HEIGHT 6 BEVEL_SIZE =
            Inr (v, [], concat (map (side_faces 7) [1..<7]) @ cap_faces 7)"
      and lv: "length v = 28"
      by auto
    define f where "f = concat (map (side_faces 7) [1..<7]) @ cap_faces 7"
    have lf: "length f = 26"
      unfolding f_def length_append length_side_part by (simp add: cap_faces_def)
    have val: "length (fst fc) = 4 \<and> (\<forall>idx\<in>set (fst fc). 0 \<le> idx \<and> idx < int (length v))"
      if "fc \<in> set f" for fc
      using built_faces_valid [of 7 fc] that unfolding f_def lv by simp
    have "\<forall>k\<in>set [0..<LIGHTS_PER_SEGMENT]. fst (rnd i k) < length f"
      using assms i by (simp add: LIGHTS_PER_SEGMENT_def lf)
    from lights_loop_ok [of f v "replicate (length f) []" "[0..<LIGHTS_PER_SEGMENT]" "rnd i", OF _ _ this] val
    obtain fl where
      ll: "lights_loop v f (rnd i) [0..<LIGHTS_PER_SEGMENT] (replicate (length f) []) = Inr fl"
      and lfl: "length fl = length f"
      by auto
    have ok: "segment_ok (v, [], f, fl)"
      using built_segment_ok [of 6 ac ANGLE_SPAN R_INNER R_OUTER SEG_HEIGHT BEVEL_SIZE v "[]" f fl]
        m lfl by (simp add: f_def)
    have ne: "f \<noteq> []" using lf by auto
    show ?thesis
      unfolding Let_def ac_def [symmetric] SUBDIVISIONS_def m f_def [symmetric]
      using ll lf ok lv ne by (simp add: LIGHTS_PER_SEGMENT_def)
  qed
  from map_res_ok [of "[0..<N_SEGMENTS]" _ "\<lambda>sg. segment_ok sg \<and> length (fst sg) = 28 \<and> length (fst (snd (snd sg))) = 26", OF step]
  show ?thesis
    unfolding main_segments_def by (simp add: N_SEGMENTS_def)
qed


lemma render_list_of_ok_segments:
  assumes "\<forall>sg\<in>set segments. segment_ok sg"
  shows "\<exists>render_list light_draw_queue.
      segments_loop mat segments ([], []) = Inr (render_list, light_draw_queue)
    \<and> build_render_list mat segments = Inr (sort_key item_depth render_list, light_draw_queue)
    \<and> length render_list = 2 * total_face_count segments
    \<and> map item_depth render_list =
         concat (map (\<lambda>sg. expected_depths mat (fst sg) (fst (snd (snd sg)))) segments)
    \<and> map item_is_back render_list =
         concat (map (\<lambda>sg. expected_sides (fst (snd (snd sg)))) segments)
    \<and> (\<forall>it\<in>set render_list. item_type it = ''face'')
    \<and> mset (sort_key item_depth render_list) = mset render_list
    \<and> length (sort_key item_depth render_list) = 2 * total_face_count segments
    \<and> sorted (map item_depth (sort_key item_depth render_list))"
proof -
  from segments_loop_ok [OF assms, of mat "[]" "[]"]
  obtain its pls where
    sl: "segments_loop mat segments ([], []) = Inr (its, pls)"
    and d: "map item_depth its =
         concat (map (\<lambda>sg. expected_depths mat (fst sg) (fst (snd (snd sg)))) segments)"
    and b: "map item_is_back its = concat (map (\<lambda>sg. expected_sides (fst (snd (snd sg)))) segments)"
    and t: "\<forall>it\<in>set its. item_type it = ''face''"
    by auto
  have "length its = length (map item_depth its)" by simp
  also have "\<dots> = 2 * total_face_count segments"
    unfolding d by (rule length_all_expected_depths)
  finally have len: "length its = 2 * total_face_count segments" .
  have br: "build_render_list mat segments = Inr (sort_key item_depth its, pls)"
    by (simp add: build_render_list_def sl)
  have srt: "sorted (map item_depth (sort_key item_depth its))"
    by (rule sorted_sort_key)
  have ms: "mset (sort_key item_depth its) = mset its"
    by simp
  have len': "length (sort_key item_depth its) = 2 * total_face_count segments"
    using len by simp
  from sl br len d b t ms len' srt show ?thesis by blast
qed

lemma main_frame_ok:
  assumes "\<forall>i<12. \<forall>k<200. fst (rnd i k) < 26"
  shows "\<exists>segments render_list light_draw_queue.
           main_segments rnd = Inr segments
         \<and> (\<forall>sg\<in>set segments. segment_ok sg)
         \<and> total_face_count segments = 312
         \<and> segments_loop mat segments ([], []) = Inr (render_list, light_draw_queue)
         \<and> length render_list = 624
         \<and> build_render_list mat segments = Inr (sort_key item_depth render_list, light_draw_queue)
         \<and> sorted (map item_depth (sort_key item_depth render_list))"
proof -
  from main_segments_ok [OF assms]
  obtain segments where ms: "main_segments rnd = Inr segments" and l: "length segments = 12"
    and ok: "\<forall>sg\<in>set segments. segment_ok sg"
    and f: "\<forall>sg\<in>set segments. length (fst (snd (snd sg))) = 26"
    by blast
  have t: "total_face_count segments = 312"
    using total_face_count_uniform [of segments 26] f l by simp
  from render_list_of_ok_segments [OF ok, of mat] t
  obtain render_list light_draw_queue where
    "segments_loop mat segments ([], []) = Inr (render_list, light_draw_queue)"
    "build_render_list mat segments = Inr (sort_key item_depth render_list, light_draw_queue)"
    "length render_list = 624"
    "sorted (map item_depth (sort_key item_depth render_list))"
    by auto
  with ms ok t show ?thesis by blast
qed


section \<open>The render list of a frame\<close>

text \<open>
  C1. For segments that are well formed (part one), and so for the segments main builds,
  at any frame and rotation state (part two): the frame computes a render list without
  raising; it holds exactly two items of type face per face of every segment, face by
  face a front item whose depth key is the mean of the transformed z of the face's
  vertices, then a back item whose depth key is that mean minus DOUBLE_FACE_Z_OFFSET =
  1e-4; the sort keeps the items and leaves the depth keys non-decreasing. With the 12
  segments of 26 faces that main builds there are 624 items. Part three: the visibility
  mask of project_points is true everywhere, so no face is skipped.
\<close>

theorem C1_render_list:
  "((\<forall>sg\<in>set segments. segment_ok sg) \<longrightarrow>
      (\<exists>render_list light_draw_queue.
          segments_loop mat segments ([], []) = Inr (render_list, light_draw_queue)
        \<and> build_render_list mat segments = Inr (sort_key item_depth render_list, light_draw_queue)
        \<and> length render_list = 2 * total_face_count segments
        \<and> map item_depth render_list =
             concat (map (\<lambda>sg. expected_depths mat (fst sg) (fst (snd (snd sg)))) segments)
        \<and> map item_is_back render_list =
             concat (map (\<lambda>sg. expected_sides (fst (snd (snd sg)))) segments)
        \<and> (\<forall>it\<in>set render_list. item_type it = ''face'')
        \<and> mset (sort_key item_depth render_list) = mset render_list
        \<and> length (sort_key item_depth render_list) = 2 * total_face_count segments
        \<and> sorted (map item_depth (sort_key item_depth render_list))))
   \<and> ((\<forall>i<12. \<forall>k<200. fst (rnd i k) < 26) \<longrightarrow>
      (\<exists>segs render_list light_draw_queue.
           main_segments rnd = Inr segs
         \<and> (\<forall>sg\<in>set segs. segment_ok sg)
         \<and> total_face_count segs = 312
         \<and> segments_loop (frame_mat view_yaw view_pitch theta) segs ([], [])
              = Inr (render_list, light_draw_queue)
         \<and> length render_list = 624
         \<and> build_render_list (frame_mat view_yaw view_pitch theta) segs
              = Inr (sort_key item_depth render_list, light_draw_queue)
         \<and> sorted (map item_depth (sort_key item_depth render_list))))
   \<and> fst (snd (snd (project_points pts))) = replicate (length pts) True"
  using render_list_of_ok_segments [of segments mat]
    main_frame_ok [of rnd "frame_mat view_yaw view_pitch theta"]
    project_points_mask [of pts]
  by blast

lemma build_render_list_example:
  "build_render_list identity3
     [([(0, 0, 1), (2, 0, 1), (2, 2, 3), (0, 2, 3)], [], [([0, 1, 2, 3], [True, True, False, False])], [[]])]
   = Inr ([\<lparr>item_depth = 2 - 1 / 10000, item_type = ''face'',
             item_points = [(600, 345), (705, 345), (705, 450), (600, 450)],
             item_edge_color = (0, 200, 255), item_edge_flags = [False, True, True, False],
             item_lights = [], item_is_back = True\<rparr>,
           \<lparr>item_depth = 2, item_type = ''face'',
             item_points = [(600, 450), (705, 450), (705, 345), (600, 345)],
             item_edge_color = (0, 255, 0), item_edge_flags = [True, True, False, False],
             item_lights = [], item_is_back = False\<rparr>], [])"
  by (simp add: build_render_list_def array_matmul_def mat_T_def identity3_def vec_mat_def
      project_points_def Let_def smul_def face_step_def getitem_def project_lights_def
      reverse_edge_flags_def WIDTH_def HEIGHT_def SCALE_def DOUBLE_FACE_Z_OFFSET_def
      FACE_EDGE_FRONT_def FACE_EDGE_BACK_def enumerate_eq_zip)


theorem C1_render_list_witness:
  "segment_ok ([(0, 0, 1), (2, 0, 1), (2, 2, 3), (0, 2, 3)], [],
                [([0, 1, 2, 3], [True, True, False, False])], [[]])
   \<and> (\<forall>(i::nat) (k::nat).
         fst ((\<lambda>(i::nat) (k::nat). (k mod 26, (1 / 2, 1 / 4, 1, (150, 10, 10)) :: point_draw)) i k) < 26)
   \<and> (\<exists>render_list light_draw_queue.
          segments_loop identity3
            [([(0, 0, 1), (2, 0, 1), (2, 2, 3), (0, 2, 3)], [],
              [([0, 1, 2, 3], [True, True, False, False])], [[]])] ([], [])
            = Inr (render_list, light_draw_queue)
        \<and> length render_list = 2
        \<and> map item_depth render_list = [2, 2 - 1 / 10000]
        \<and> map item_is_back render_list = [False, True]
        \<and> map item_depth (sort_key item_depth render_list) = [2 - 1 / 10000, 2]
        \<and> sorted (map item_depth (sort_key item_depth render_list)))
   \<and> (\<exists>segs render_list light_draw_queue.
           main_segments (\<lambda>i k. (k mod 26, (1 / 2, 1 / 4, 1, (150, 10, 10)))) = Inr segs
         \<and> total_face_count segs = 312
         \<and> segments_loop (frame_mat 0 0 0) segs ([], []) = Inr (render_list, light_draw_queue)
         \<and> length render_list = 624
         \<and> sorted (map item_depth (sort_key item_depth render_list)))"
proof -
  let ?W = "[([(0, 0, 1), (2, 0, 1), (2, 2, 3), (0, 2, 3)], [],
              [([0, 1, 2, 3], [True, True, False, False])], [[]])] :: segment list"
  let ?R = "\<lambda>(i::nat) (k::nat). (k mod 26, (1 / 2, 1 / 4, 1, (150, 10, 10)) :: point_draw)"
  note inst = C1_render_list [of ?W identity3 ?R 0 0 0 "[]"]
  have w1: "segment_ok ([(0, 0, 1), (2, 0, 1), (2, 2, 3), (0, 2, 3)], [],
                [([0, 1, 2, 3], [True, True, False, False])], [[]])"
    by (simp add: segment_ok_def face_ok_def)
  then have h1: "\<forall>sg\<in>set ?W. segment_ok sg"
    by simp
  have w2: "\<forall>(i::nat) (k::nat). fst (?R i k) < 26"
    by simp
  then have h2: "\<forall>i<12. \<forall>k<200. fst (?R i k) < 26"
    by simp
  have e: "expected_depths identity3 [(0, 0, 1), (2, 0, 1), (2, 2, 3), (0, 2, 3)]
             [([0, 1, 2, 3], [True, True, False, False])] = [2, 2 - 1 / 10000]"
    by (simp add: expected_depths_def mean_transformed_z_def vec_mat_def mat_T_def identity3_def
        DOUBLE_FACE_Z_OFFSET_def)
  from inst h1 obtain render_list light_draw_queue where
    a: "segments_loop identity3 ?W ([], []) = Inr (render_list, light_draw_queue)"
    "length render_list = 2 * total_face_count ?W"
    "map item_depth render_list =
       concat (map (\<lambda>sg. expected_depths identity3 (fst sg) (fst (snd (snd sg)))) ?W)"
    "map item_is_back render_list = concat (map (\<lambda>sg. expected_sides (fst (snd (snd sg)))) ?W)"
    "sorted (map item_depth (sort_key item_depth render_list))"
    by blast
  have d: "map item_depth render_list = [2, 2 - 1 / 10000]"
    using a(3) e by simp
  then obtain x y where xy: "render_list = [x, y]" "item_depth x = 2" "item_depth y = 2 - 1 / 10000"
    by (auto simp: map_eq_Cons_conv)
  have s: "map item_depth (sort_key item_depth render_list) = [2 - 1 / 10000, 2]"
    by (simp add: xy)
  have 1: "\<exists>render_list light_draw_queue.
          segments_loop identity3 ?W ([], []) = Inr (render_list, light_draw_queue)
        \<and> length render_list = 2
        \<and> map item_depth render_list = [2, 2 - 1 / 10000]
        \<and> map item_is_back render_list = [False, True]
        \<and> map item_depth (sort_key item_depth render_list) = [2 - 1 / 10000, 2]
        \<and> sorted (map item_depth (sort_key item_depth render_list))"
    using a d s by (auto simp: total_face_count_def expected_sides_def)
  from inst h2 have 2: "\<exists>segs render_list light_draw_queue.
           main_segments ?R = Inr segs
         \<and> total_face_count segs = 312
         \<and> segments_loop (frame_mat 0 0 0) segs ([], []) = Inr (render_list, light_draw_queue)
         \<and> length render_list = 624
         \<and> sorted (map item_depth (sort_key item_depth render_list))"
    by blast
  from w1 w2 1 2 show ?thesis by blast
qed



section \<open>Face indices stay inside the vertex array\<close>

text \<open>
  C10. For every subdivisions >= 1 the builder returns 4 * (subdivisions + 1) vertices, and
  every vertex index in every face it returns lies in [0, 4 * (subdivisions + 1)): indexing
  the vertex array by it succeeds. So sampling a point on any returned face succeeds, and a
  frame over such a segment (with one light list per face) computes its render list
  without raising. For the program itself: with every randrange draw inside its range,
  main builds its 12 segments without raising, and every frame over them computes its
  render list without raising.
\<close>

theorem C10_face_indices_in_range:
  assumes "1 \<le> subdivs"
  shows "(\<exists>verts edges faces.
           make_curved_beveled_segment angle_center angle_span r_inner r_outer height subdivs bevel
             = Inr (verts, edges, faces)
           \<and> int (length verts) = 4 * (subdivs + 1)
           \<and> (\<forall>fc\<in>set faces. \<forall>idx\<in>set (fst fc).
                 0 \<le> idx \<and> idx < 4 * (subdivs + 1) \<and> getitem verts idx = Inr (verts ! nat idx))
           \<and> (\<forall>fc\<in>set faces. \<forall>u v. \<exists>p. sample_point_on_quad verts (fst fc) u v = Inr p)
           \<and> (\<forall>mat lights. length lights = length faces \<longrightarrow>
                 (\<exists>r. build_render_list mat [(verts, edges, faces, lights)] = Inr r)))
         \<and> ((\<forall>i<12. \<forall>k<200. fst (rnd i k) < 26) \<longrightarrow>
              (\<exists>segments. main_segments rnd = Inr segments \<and> length segments = 12
                 \<and> (\<forall>mat. \<exists>r. build_render_list mat segments = Inr r)))"
proof -
  define n where "n = nat (subdivs + 1)"
  have n: "1 \<le> n" "int n = subdivs + 1" using assms by (simp_all add: n_def)
  from assms have s0: "0 \<le> subdivs" and "0 \<le> subdivs + 1" by simp_all
  from make_segment_shape [OF this(2), of angle_center angle_span r_inner r_outer height bevel]
  obtain verts where
    m: "make_curved_beveled_segment angle_center angle_span r_inner r_outer height subdivs bevel =
       Inr (verts, [], concat (map (side_faces n) [1..<n]) @ cap_faces n)"
    and v: "length verts = 4 * n"
    unfolding n_def by blast
  define faces where "faces = concat (map (side_faces n) [1..<n]) @ cap_faces n"
  have val: "length (fst fc) = 4 \<and> (\<forall>idx\<in>set (fst fc). 0 \<le> idx \<and> idx < 4 * int n)"
    if "fc \<in> set faces" for fc
    using built_faces_valid [OF n(1), of fc] that unfolding faces_def by blast
  have 1: "int (length verts) = 4 * (subdivs + 1)" using v n by simp
  have 2: "\<forall>fc\<in>set faces. \<forall>idx\<in>set (fst fc).
                 0 \<le> idx \<and> idx < 4 * (subdivs + 1) \<and> getitem verts idx = Inr (verts ! nat idx)"
    using val v n by (auto simp: getitem_nat)
  have 3: "\<forall>fc\<in>set faces. \<forall>u v. \<exists>p. sample_point_on_quad verts (fst fc) u v = Inr p"
  proof (intro ballI allI)
    fix fc u w assume "fc \<in> set faces"
    from val [OF this] have "length (fst fc) = 4"
      "\<forall>idx\<in>set (fst fc). 0 \<le> idx \<and> idx < int (length verts)"
      using v by auto
    then show "\<exists>p. sample_point_on_quad verts (fst fc) u w = Inr p"
      by (rule sample_point_on_quad_ok)
  qed
  have 4: "\<forall>mat lights. length lights = length faces \<longrightarrow>
                 (\<exists>r. build_render_list mat [(verts, [], faces, lights)] = Inr r)"
  proof (intro allI impI)
    fix mat and lights :: "light list list"
    assume l: "length lights = length faces"
    have "segment_ok (verts, [], faces, lights)"
      using built_segment_ok [OF s0 m [folded faces_def] l] .
    then have "\<forall>sg\<in>set [(verts, [], faces, lights)]. segment_ok sg" by simp
    from segments_loop_ok [OF this, of mat "[]" "[]"]
    show "\<exists>r. build_render_list mat [(verts, [], faces, lights)] = Inr r"
      by (auto simp: build_render_list_def)
  qed
  have 5: "(\<forall>i<12. \<forall>k<200. fst (rnd i k) < 26) \<longrightarrow>
              (\<exists>segments. main_segments rnd = Inr segments \<and> length segments = 12
                 \<and> (\<forall>mat. \<exists>r. build_render_list mat segments = Inr r))"
  proof
    assume "\<forall>i<12. \<forall>k<200. fst (rnd i k) < 26"
    from main_segments_ok [OF this]
    obtain segments where ms: "main_segments rnd = Inr segments" "length segments = 12"
      and ok: "\<forall>sg\<in>set segments. segment_ok sg"
      by blast
    have "\<exists>r. build_render_list mat segments = Inr r" for mat
      using segments_loop_ok [OF ok, of mat "[]" "[]"] by (auto simp: build_render_list_def)
    with ms show "\<exists>segments. main_segments rnd = Inr segments \<and> length segments = 12
                 \<and> (\<forall>mat. \<exists>r. build_render_list mat segments = Inr r)"
      by blast
  qed
  from m [folded faces_def] 1 2 3 4 5 show ?thesis by blast
qed

theorem C10_face_indices_in_range_witness:
  "(1::int) \<le> 1
   \<and> (\<forall>(i::nat) (k::nat).
         fst ((\<lambda>(i::nat) (k::nat). (25 - k mod 26, (0, 1 / 2, 2, (100, 0, 30)) :: point_draw)) i k) < 26)
   \<and> (\<exists>verts edges faces.
         make_curved_beveled_segment 0 1 1 2 1 1 (1 / 10) = Inr (verts, edges, faces)
       \<and> length verts = 8
       \<and> (\<forall>fc\<in>set faces. \<forall>idx\<in>set (fst fc). 0 \<le> idx \<and> idx < 8)
       \<and> (\<forall>fc\<in>set faces. \<exists>p. sample_point_on_quad verts (fst fc) (1 / 2) (1 / 2) = Inr p)
       \<and> (length (replicate (length faces) ([] :: light list)) = length faces
            \<and> (\<exists>r. build_render_list identity3
                      [(verts, edges, faces, replicate (length faces) [])] = Inr r)))
   \<and> (\<exists>segments.
         main_segments (\<lambda>i k. (25 - k mod 26, (0, 1 / 2, 2, (100, 0, 30)))) = Inr segments
       \<and> length segments = 12
       \<and> (\<exists>r. build_render_list (frame_mat 1 2 3) segments = Inr r))"
proof -
  let ?R = "\<lambda>(i::nat) (k::nat). (25 - k mod 26, (0, 1 / 2, 2, (100, 0, 30)) :: point_draw)"
  note inst = C10_face_indices_in_range [of 1 0 1 1 2 1 "1 / 10" ?R]
  have h1: "(1::int) \<le> 1" by simp
  have "25 - k mod 26 < 26" for k :: nat by presburger
  then have w2: "\<forall>(i::nat) (k::nat). fst (?R i k) < 26" by simp
  then have h2: "\<forall>i<12::nat. \<forall>k<200::nat. fst (?R i k) < 26" by simp
  from inst [OF h1] obtain verts edges faces where
    a: "make_curved_beveled_segment 0 1 1 2 1 1 (1 / 10) = Inr (verts, edges, faces)"
    "int (length verts) = 4 * (1 + 1)"
    "\<forall>fc\<in>set faces. \<forall>idx\<in>set (fst fc).
                 0 \<le> idx \<and> idx < 4 * (1 + 1) \<and> getitem verts idx = Inr (verts ! nat idx)"
    "\<forall>fc\<in>set faces. \<forall>u v. \<exists>p. sample_point_on_quad verts (fst fc) u v = Inr p"
    "\<forall>mat lights. length lights = length faces \<longrightarrow>
                 (\<exists>r. build_render_list mat [(verts, edges, faces, lights)] = Inr r)"
    by blast
  have 1: "\<exists>verts edges faces.
         make_curved_beveled_segment 0 1 1 2 1 1 (1 / 10) = Inr (verts, edges, faces)
       \<and> length verts = 8
       \<and> (\<forall>fc\<in>set faces. \<forall>idx\<in>set (fst fc). 0 \<le> idx \<and> idx < 8)
       \<and> (\<forall>fc\<in>set faces. \<exists>p. sample_point_on_quad verts (fst fc) (1 / 2) (1 / 2) = Inr p)
       \<and> (length (replicate (length faces) ([] :: light list)) = length faces
            \<and> (\<exists>r. build_render_list identity3
                      [(verts, edges, faces, replicate (length faces) [])] = Inr r))"
  proof -
    have b1: "length verts = 8" using a(2) by simp
    have b2: "\<forall>fc\<in>set faces. \<forall>idx\<in>set (fst fc). 0 \<le> idx \<and> idx < 8"
      using a(3) by simp
    have b3: "\<forall>fc\<in>set faces. \<exists>p. sample_point_on_quad verts (fst fc) (1 / 2) (1 / 2) = Inr p"
      using a(4) by blast
    have b4: "length (replicate (length faces) ([] :: light list)) = length faces" by simp
    from a(5) [rule_format, OF b4, of identity3]
    have b5: "\<exists>r. build_render_list identity3
                      [(verts, edges, faces, replicate (length faces) [])] = Inr r" .
    from a(1) b1 b2 b3 b4 b5 show ?thesis by blast
  qed
  from inst [OF h1] h2 have 2: "\<exists>segments.
         main_segments ?R = Inr segments
       \<and> length segments = 12
       \<and> (\<exists>r. build_render_list (frame_mat 1 2 3) segments = Inr r)"
    by blast
  from h1 w2 1 2 show ?thesis by blast
qed


end
